theory Spec2Isabelle
  imports Main "HOL-Library.Word" "HOL-Library.AList"
begin

unbundle bit_operations_syntax

section \<open>The parser of src/parser.ts as HOL functions\<close>

text \<open>
  The source is one class, \<^verbatim>\<open>Parser\<close>, whose constructor decodes a whole Java
  serialization stream. Its methods read from a cursor over an immutable buffer, fill a
  handle table and build JavaScript objects, some of which are entered in the handle table
  before they are complete. The embedding keeps that shape: the parser object is a record
  that every method takes and returns, the JavaScript objects that are shared and mutated
  (class descriptors, objects, arrays) live in an explicit store addressed by \<open>VRef\<close>,
  an exception is the outcome \<open>Err\<close>, and every method that calls \<^verbatim>\<open>content\<close>
  again (directly or through a loop) takes a fuel argument.
\<close>

subsection \<open>Values\<close>

type_synonym byte = "8 word"

text \<open>A JavaScript string is a sequence of UTF-16 code units.\<close>

type_synonym jstring = "16 word list"

definition str :: "string \<Rightarrow> jstring" where
  "str s = map (\<lambda>c. of_nat (of_char c)) s"

text \<open>
  The values the parser produces. Numbers read by the integer readers are \<open>VNum\<close>;
  \<^verbatim>\<open>readFloatBE\<close> and \<^verbatim>\<open>readDoubleBE\<close> results are kept as their IEEE bit patterns;
  \<open>VLong low high\<close> is \<^verbatim>\<open>Long.fromBits(low, high)\<close>; \<open>VBuf\<close> is a
  \<^verbatim>\<open>Buffer\<close> slice; \<open>VEndBlock\<close> is the module's \<^verbatim>\<open>endBlock\<close> object;
  \<open>VSeq\<close> is the array returned by \<^verbatim>\<open>annotations\<close>; \<open>VEnum clazz text\<close> is the
  String object built by \<^verbatim>\<open>parseEnum\<close>, with its \<^verbatim>\<open>class\<close> property and its text
  (the string conversion of the constant); \<open>VRef a\<close> is the object at address \<open>a\<close>
  of the store.
\<close>

datatype val =
    VUndefined
  | VNull
  | VBool bool
  | VNum int
  | VFloat "32 word"
  | VDouble "64 word"
  | VLong "32 word" "32 word"
  | VStr jstring
  | VBuf "byte list"
  | VEndBlock
  | VSeq "val list"
  | VEnum val jstring
  | VRef nat

type_synonym group = "(jstring \<times> val) list"

text \<open>JavaScript's truth value of a value, as used by \<^verbatim>\<open>if (cls.super)\<close>.\<close>

fun truthy :: "val \<Rightarrow> bool" where
  "truthy VUndefined = False"
| "truthy VNull = False"
| "truthy (VBool b) = b"
| "truthy (VNum n) = (n \<noteq> 0)"
| "truthy (VFloat w) = (w AND 0x7FFFFFFF \<noteq> 0 \<and> w AND 0x7FFFFFFF \<le> 0x7F800000)"
| "truthy (VDouble w) =
     (w AND 0x7FFFFFFFFFFFFFFF \<noteq> 0 \<and> w AND 0x7FFFFFFFFFFFFFFF \<le> 0x7FF0000000000000)"
| "truthy (VStr s) = (s \<noteq> [])"
| "truthy _ = True"

subsection \<open>Errors and outcomes\<close>

text \<open>The entries of the source's \<^verbatim>\<open>names\<close> array.\<close>

datatype name =
    Null | Reference | ClassDesc | Object | String | Array | Class | BlockData
  | EndBlockData | Reset | BlockDataLong | Exception | LongString | ProxyClassDesc | Enum

definition names :: "name list" where
  "names = [Null, Reference, ClassDesc, Object, String, Array, Class, BlockData, EndBlockData,
            Reset, BlockDataLong, Exception, LongString, ProxyClassDesc, Enum]"

text \<open>
  One constructor per \<^verbatim>\<open>throw\<close> of the source, and two for the exceptions the
  JavaScript runtime raises by itself: \<open>TypeError\<close> (a property read on
  \<^verbatim>\<open>null\<close> or \<^verbatim>\<open>undefined\<close>, a call of what is no function, a conversion of
  an object that has no callable \<^verbatim>\<open>toString\<close>, an assignment to a read-only property
  in strict mode) and \<open>RangeError\<close> (an invalid array length). \<open>UnknownFlags\<close>
  carries the value of \<^verbatim>\<open>cls.flags\<close>. \<open>NotAllowed\<close> and
  \<open>NoHandler\<close> carry \<open>None\<close> where the source's \<^verbatim>\<open>name\<close> is
  \<^verbatim>\<open>undefined\<close>.
\<close>

datatype error =
    PrematureEnd
  | LongStringTooLong
  | MagicNotFound
  | WrongVersion
  | UnknownType int
  | NotAllowed "name option"
  | NoHandler "name option"
  | ExternalV1
  | UnknownFlags val
  | UnknownFieldType jstring
  | TypeError
  | RangeError
  | PostprocError

text \<open>
  \<open>OutOfFuel\<close> is the model giving up, not an outcome of the program. \<open>Unmodelled\<close>
  marks the places where the program's behaviour depends on parts of JavaScript that this
  embedding leaves out. They are reached only when a value other than a class descriptor
  stands where a class descriptor is used, or when a name is \<^verbatim>\<open>__proto__\<close>:
  \<^item> the conversion to a string of an array, a Long or a number with a fraction, and the
    conversion to a number of a string, an array, a Buffer, a Long or a number with a
    fraction, where such a value is used as a name, a key, a type or as flags;
  \<^item> a group whose prototype is replaced: a field named \<^verbatim>\<open>__proto__\<close> whose value is an
    object or \<^verbatim>\<open>null\<close>, or a post-processor that returns a group with that key;
  \<^item> a field type that, prefixed with \<^verbatim>\<open>prim\<close>, is the key of a registered
    post-processor.
  No theorem below says anything about a run that ends in either.
\<close>

datatype 'a outcome = Ok 'a | Err error | OutOfFuel | Unmodelled

fun onOk :: "'a outcome \<Rightarrow> ('a \<Rightarrow> 'b outcome) \<Rightarrow> 'b outcome" where
  "onOk (Ok x) f = f x"
| "onOk (Err e) f = Err e"
| "onOk OutOfFuel f = OutOfFuel"
| "onOk Unmodelled f = Unmodelled"

subsection \<open>The store and the parser object\<close>

record FieldDesc =
  fd_type :: jstring
  fd_name :: jstring
  fd_className :: "val option"

text \<open>
  A class descriptor is entered in the handle table after its name and serialVersionUID
  are set and before anything else is; a property that is not assigned yet is \<open>None\<close>
  (\<^verbatim>\<open>undefined\<close> when read).
\<close>

record ClassDesc =
  cd_name :: jstring
  cd_serialVersionUID :: jstring
  cd_flags :: "int option"
  cd_isEnum :: "bool option"
  cd_fields :: "FieldDesc list option"
  cd_annotations :: "val list option"
  cd_super :: "val option"

text \<open>
  An object has the read-only properties \<^verbatim>\<open>class\<close> and \<^verbatim>\<open>extends\<close> and the flattened
  fields, \<open>od_props\<close>. \<^verbatim>\<open>extends\<close> is a plain object: \<open>od_extends\<close> are its own
  properties, and \<open>od_extendsProto\<close> is its prototype once an assignment through the
  key \<^verbatim>\<open>__proto__\<close> has replaced it (\<open>None\<close> while it is \<^verbatim>\<open>Object.prototype\<close>).
  An array has \<^verbatim>\<open>class\<close>, an \<^verbatim>\<open>extends\<close> that stays empty, and its elements.
\<close>

record ObjectDesc =
  od_class :: val
  od_extends :: "(jstring \<times> group) list"
  od_extendsProto :: "group option"
  od_props :: group

record ArrayDesc =
  ad_class :: val
  ad_elems :: "val list"

datatype hobj = HClass ClassDesc | HObject ObjectDesc | HArray ArrayDesc

text \<open>
  A post-processor has the source's type \<^verbatim>\<open>ParseFunc\<close>: from the class, the group and the
  annotation block to a group (or it throws). The functions registered by the repository
  are not part of the parser; the registry is taken as it is found on the parser object,
  under the key \<^verbatim>\<open>name@serialVersionUID\<close>. The UTF-8 decoding of
  \<^verbatim>\<open>Buffer.toString\<close> belongs to the host and is a parameter as well.
\<close>

type_synonym parseFunc = "val \<Rightarrow> group \<Rightarrow> val list \<Rightarrow> error + group"

record pstate =
  buf :: "byte list"
  pos :: nat
  nextHandle :: int
  handles :: "int \<Rightarrow> val option"
  contents :: "val list"
  heap :: "hobj list"
  registry :: "jstring \<Rightarrow> parseFunc option"
  utf8 :: "byte list \<Rightarrow> jstring"

type_synonym 'a parser = "pstate \<Rightarrow> ('a \<times> pstate) outcome"

fun andThen :: "('a \<times> pstate) outcome \<Rightarrow> ('a \<Rightarrow> pstate \<Rightarrow> 'b outcome) \<Rightarrow> 'b outcome" where
  "andThen (Ok (x, st)) f = f x st"
| "andThen (Err e) f = Err e"
| "andThen OutOfFuel f = OutOfFuel"
| "andThen Unmodelled f = Unmodelled"

subsection \<open>The cursor\<close>

definition step :: "nat \<Rightarrow> nat parser" where
  "step len st =
     (let p = pos st; st' = st\<lparr>pos := pos st + len\<rparr>
      in if pos st' > length (buf st') then Err PrematureEnd else Ok (p, st'))"

definition slice :: "byte list \<Rightarrow> nat \<Rightarrow> nat \<Rightarrow> byte list" where
  "slice b from to = take (to - from) (drop from b)"

text \<open>Big-endian reads; \<open>signed w\<close> reads a \<open>w\<close>-bit pattern as two's complement.\<close>

definition be :: "byte list \<Rightarrow> int" where
  "be bs = foldl (\<lambda>a b. a * 256 + uint b) 0 bs"

definition signed :: "nat \<Rightarrow> int \<Rightarrow> int" where
  "signed w n = (if n \<ge> 2 ^ (w - 1) then n - 2 ^ w else n)"

definition readBytes :: "nat \<Rightarrow> (byte list) parser" where
  "readBytes len st = andThen (step len st) (\<lambda>p st'. Ok (slice (buf st') p (pos st'), st'))"

definition readUInt8 :: "int parser" where
  "readUInt8 st = andThen (readBytes 1 st) (\<lambda>bs st'. Ok (be bs, st'))"

definition readInt8 :: "int parser" where
  "readInt8 st = andThen (readBytes 1 st) (\<lambda>bs st'. Ok (signed 8 (be bs), st'))"

definition readUInt16 :: "int parser" where
  "readUInt16 st = andThen (readBytes 2 st) (\<lambda>bs st'. Ok (be bs, st'))"

definition readInt16 :: "int parser" where
  "readInt16 st = andThen (readBytes 2 st) (\<lambda>bs st'. Ok (signed 16 (be bs), st'))"

definition readUInt32 :: "int parser" where
  "readUInt32 st = andThen (readBytes 4 st) (\<lambda>bs st'. Ok (be bs, st'))"

definition readInt32 :: "int parser" where
  "readInt32 st = andThen (readBytes 4 st) (\<lambda>bs st'. Ok (signed 32 (be bs), st'))"

definition hexDigit :: "nat \<Rightarrow> 16 word" where
  "hexDigit d = (if d < 10 then of_nat (48 + d) else of_nat (87 + d))"

definition hex :: "byte list \<Rightarrow> jstring" where
  "hex bs = concat (map (\<lambda>b. [hexDigit (unat b div 16), hexDigit (unat b mod 16)]) bs)"

datatype encoding = EncHex | EncUtf8

definition chunk :: "nat \<Rightarrow> encoding \<Rightarrow> jstring parser" where
  "chunk len encoding st =
     andThen (readBytes len st) (\<lambda>bs st'.
       Ok (case encoding of EncHex \<Rightarrow> hex bs | EncUtf8 \<Rightarrow> utf8 st' bs, st'))"

definition readHex :: "nat \<Rightarrow> jstring parser" where
  "readHex len st = chunk len EncHex st"

definition utf :: "jstring parser" where
  "utf st = andThen (readUInt16 st) (\<lambda>len st'. chunk (nat len) EncUtf8 st')"

definition utfLong :: "jstring parser" where
  "utfLong st =
     andThen (readUInt32 st) (\<lambda>hi st1.
       if hi \<noteq> 0 then Err LongStringTooLong
       else andThen (readUInt32 st1) (\<lambda>len st2. chunk (nat len) EncUtf8 st2))"

subsection \<open>The handle table\<close>

definition newHandle :: "val \<Rightarrow> pstate \<Rightarrow> pstate" where
  "newHandle obj st =
     st\<lparr>handles := (handles st)(nextHandle st \<mapsto> obj), nextHandle := nextHandle st + 1\<rparr>"

text \<open>
  \<^verbatim>\<open>newDeferredHandle\<close> returns a closure over the reserved index; the closure is
  \<open>assignHandle\<close> at that index.
\<close>

definition newDeferredHandle :: "pstate \<Rightarrow> int \<times> pstate" where
  "newDeferredHandle st =
     (nextHandle st,
      st\<lparr>handles := (handles st)(nextHandle st \<mapsto> VNull), nextHandle := nextHandle st + 1\<rparr>)"

definition assignHandle :: "int \<Rightarrow> val \<Rightarrow> pstate \<Rightarrow> pstate" where
  "assignHandle idx obj st = st\<lparr>handles := (handles st)(idx \<mapsto> obj)\<rparr>"

subsection \<open>The handlers that read no nested content\<close>

definition parseReference :: "val parser" where
  "parseReference st =
     andThen (readInt32 st) (\<lambda>idx st'.
       Ok (case handles st' idx of None \<Rightarrow> VUndefined | Some v \<Rightarrow> v, st'))"

definition parseNull :: "val parser" where
  "parseNull st = Ok (VNull, st)"

definition parseEndBlockData :: "val parser" where
  "parseEndBlockData st = Ok (VEndBlock, st)"

definition parseBlockData :: "val parser" where
  "parseBlockData st =
     andThen (readUInt8 st) (\<lambda>len st'.
       Ok (VBuf (slice (buf st') (pos st') (pos st' + nat len)), st'\<lparr>pos := pos st' + nat len\<rparr>))"

definition parseBlockDataLong :: "val parser" where
  "parseBlockDataLong st =
     andThen (readUInt32 st) (\<lambda>len st'.
       Ok (VBuf (slice (buf st') (pos st') (pos st' + nat len)), st'\<lparr>pos := pos st' + nat len\<rparr>))"

definition parseString :: "val parser" where
  "parseString st = andThen (utf st) (\<lambda>s st'. Ok (VStr s, newHandle (VStr s) st'))"

definition parseLongString :: "val parser" where
  "parseLongString st = andThen (utfLong st) (\<lambda>s st'. Ok (VStr s, newHandle (VStr s) st'))"

definition primB :: "val parser" where
  "primB st = andThen (readInt8 st) (\<lambda>n st'. Ok (VNum n, st'))"

definition primC :: "val parser" where
  "primC st = andThen (readUInt16 st) (\<lambda>n st'. Ok (VStr [word_of_int n], st'))"

definition primD :: "val parser" where
  "primD st = andThen (readBytes 8 st) (\<lambda>bs st'. Ok (VDouble (word_of_int (be bs)), st'))"

definition primF :: "val parser" where
  "primF st = andThen (readBytes 4 st) (\<lambda>bs st'. Ok (VFloat (word_of_int (be bs)), st'))"

definition primI :: "val parser" where
  "primI st = andThen (readInt32 st) (\<lambda>n st'. Ok (VNum n, st'))"

definition primJ :: "val parser" where
  "primJ st =
     andThen (readUInt32 st) (\<lambda>high st1.
       andThen (readUInt32 st1) (\<lambda>low st2. Ok (VLong (word_of_int low) (word_of_int high), st2)))"

definition primS :: "val parser" where
  "primS st = andThen (readInt16 st) (\<lambda>n st'. Ok (VNum n, st'))"

definition primZ :: "val parser" where
  "primZ st = andThen (readInt8 st) (\<lambda>n st'. Ok (VBool (n \<noteq> 0), st'))"

text \<open>
  \<^verbatim>\<open>primHandler(type)\<close> looks up the method \<^verbatim>\<open>"prim" + type\<close>; the parser has
  exactly these ten.
\<close>

datatype prim = PrimB | PrimC | PrimD | PrimF | PrimI | PrimJ | PrimS | PrimZ | PrimL | PrimArr

definition primTable :: "(jstring \<times> prim) list" where
  "primTable =
     [(str ''B'', PrimB), (str ''C'', PrimC), (str ''D'', PrimD), (str ''F'', PrimF),
      (str ''I'', PrimI), (str ''J'', PrimJ), (str ''S'', PrimS), (str ''Z'', PrimZ),
      (str ''L'', PrimL), (str ''['', PrimArr)]"

definition primHandler :: "jstring \<Rightarrow> error + prim" where
  "primHandler type =
     (case map_of primTable type of None \<Rightarrow> Inl (UnknownFieldType type) | Some h \<Rightarrow> Inr h)"

definition charAt :: "nat \<Rightarrow> jstring \<Rightarrow> jstring" where
  "charAt i s = (if i < length s then [s ! i] else [])"

subsection \<open>Reading and writing the store\<close>

definition alloc :: "hobj \<Rightarrow> pstate \<Rightarrow> nat \<times> pstate" where
  "alloc h st = (length (heap st), st\<lparr>heap := heap st @ [h]\<rparr>)"

definition updClass :: "nat \<Rightarrow> (ClassDesc \<Rightarrow> ClassDesc) \<Rightarrow> pstate \<Rightarrow> pstate" where
  "updClass a f st =
     st\<lparr>heap := (heap st)[a := (case heap st ! a of HClass c \<Rightarrow> HClass (f c) | h \<Rightarrow> h)]\<rparr>"

definition updObject :: "nat \<Rightarrow> (ObjectDesc \<Rightarrow> ObjectDesc) \<Rightarrow> pstate \<Rightarrow> pstate" where
  "updObject a f st =
     st\<lparr>heap := (heap st)[a := (case heap st ! a of HObject ob \<Rightarrow> HObject (f ob) | h \<Rightarrow> h)]\<rparr>"

definition updArray :: "nat \<Rightarrow> (ArrayDesc \<Rightarrow> ArrayDesc) \<Rightarrow> pstate \<Rightarrow> pstate" where
  "updArray a f st =
     st\<lparr>heap := (heap st)[a := (case heap st ! a of HArray ar \<Rightarrow> HArray (f ar) | h \<Rightarrow> h)]\<rparr>"

subsection \<open>Properties and conversions of values\<close>

text \<open>
  The methods read \<^verbatim>\<open>super\<close>, \<^verbatim>\<open>name\<close>, \<^verbatim>\<open>serialVersionUID\<close>, \<^verbatim>\<open>flags\<close> and
  \<^verbatim>\<open>fields\<close> of the value found at a class-descriptor position, and \<^verbatim>\<open>type\<close> and
  \<^verbatim>\<open>name\<close> of the elements of \<^verbatim>\<open>fields\<close>. That value is a descriptor,
  \<^verbatim>\<open>null\<close>, or whatever a reference resolves to. \<open>getProp\<close> is the property read:
  it throws on \<^verbatim>\<open>null\<close> and \<^verbatim>\<open>undefined\<close>; a descriptor has the properties
  assigned to it so far; a parsed object has its flattened fields (\<^verbatim>\<open>class\<close> and
  \<^verbatim>\<open>extends\<close> are none of the keys read); an array, a string, a number and every other
  value has none of these properties, on itself or on its prototype.
\<close>

datatype pkey = KSuper | KName | KSerialVersionUID | KFlags | KType

definition keyText :: "pkey \<Rightarrow> jstring" where
  "keyText k =
     (case k of
        KSuper \<Rightarrow> str ''super''
      | KName \<Rightarrow> str ''name''
      | KSerialVersionUID \<Rightarrow> str ''serialVersionUID''
      | KFlags \<Rightarrow> str ''flags''
      | KType \<Rightarrow> str ''type'')"

definition classProp :: "ClassDesc \<Rightarrow> pkey \<Rightarrow> val" where
  "classProp c k =
     (case k of
        KSuper \<Rightarrow> (case cd_super c of None \<Rightarrow> VUndefined | Some s \<Rightarrow> s)
      | KName \<Rightarrow> VStr (cd_name c)
      | KSerialVersionUID \<Rightarrow> VStr (cd_serialVersionUID c)
      | KFlags \<Rightarrow> (case cd_flags c of None \<Rightarrow> VUndefined | Some f \<Rightarrow> VNum f)
      | KType \<Rightarrow> VUndefined)"

definition ownProp :: "group \<Rightarrow> jstring \<Rightarrow> val" where
  "ownProp g k = (case map_of g k of None \<Rightarrow> VUndefined | Some v \<Rightarrow> v)"

definition getProp :: "pstate \<Rightarrow> val \<Rightarrow> pkey \<Rightarrow> val outcome" where
  "getProp st v k =
     (case v of
        VUndefined \<Rightarrow> Err TypeError
      | VNull \<Rightarrow> Err TypeError
      | VRef a \<Rightarrow>
          (if a < length (heap st)
           then (case heap st ! a of
                   HClass c \<Rightarrow> Ok (classProp c k)
                 | HObject ob \<Rightarrow> Ok (ownProp (od_props ob) (keyText k))
                 | HArray ar \<Rightarrow> Ok VUndefined)
           else Unmodelled)
      | _ \<Rightarrow> Ok VUndefined)"

text \<open>
  JavaScript's conversion of a value to a string, as applied to \<^verbatim>\<open>cls.name\<close> where it
  is a property key or part of the registry key, to \<^verbatim>\<open>field.type\<close> and
  \<^verbatim>\<open>field.name\<close>, and to the constant of an enum. A plain object converts to
  \<^verbatim>\<open>[object Object]\<close> through \<^verbatim>\<open>Object.prototype.toString\<close>, unless it has a field
  \<^verbatim>\<open>toString\<close> of its own: no parsed value is a function, so the conversion finds
  nothing to call and throws. An integer below \<open>10 ^ 21\<close> in magnitude converts
  to its decimal digits.
\<close>

fun digitsOf :: "nat \<Rightarrow> jstring" where
  "digitsOf n =
     (if n < 10 then [of_nat (48 + n)] else digitsOf (n div 10) @ [of_nat (48 + n mod 10)])"

declare digitsOf.simps [simp del]

definition decimal :: "int \<Rightarrow> jstring" where
  "decimal n = (if n < 0 then str ''-'' @ digitsOf (nat (- n)) else digitsOf (nat n))"

definition toStr :: "pstate \<Rightarrow> val \<Rightarrow> jstring outcome" where
  "toStr st v =
     (case v of
        VUndefined \<Rightarrow> Ok (str ''undefined'')
      | VNull \<Rightarrow> Ok (str ''null'')
      | VBool b \<Rightarrow> Ok (if b then str ''true'' else str ''false'')
      | VNum n \<Rightarrow> (if \<bar>n\<bar> < 10 ^ 21 then Ok (decimal n) else Unmodelled)
      | VStr s \<Rightarrow> Ok s
      | VBuf b \<Rightarrow> Ok (utf8 st b)
      | VEndBlock \<Rightarrow> Ok (str ''[object Object]'')
      | VEnum c t \<Rightarrow> Ok t
      | VRef a \<Rightarrow>
          (if a < length (heap st)
           then (case heap st ! a of
                   HClass c \<Rightarrow> Ok (str ''[object Object]'')
                 | HObject ob \<Rightarrow>
                     if str ''toString'' \<in> fst ` set (od_props ob) then Err TypeError
                     else Ok (str ''[object Object]'')
                 | HArray ar \<Rightarrow> Unmodelled)
           else Unmodelled)
      | _ \<Rightarrow> Unmodelled)"

text \<open>
  The conversion to a 32-bit integer that \<^verbatim>\<open>cls.flags & 0x0f\<close> applies to
  \<^verbatim>\<open>cls.flags\<close>. \<^verbatim>\<open>undefined\<close> and a plain object convert to 0 (through
  \<^verbatim>\<open>NaN\<close>).
\<close>

definition toInt32 :: "pstate \<Rightarrow> val \<Rightarrow> int outcome" where
  "toInt32 st v =
     (case v of
        VUndefined \<Rightarrow> Ok 0
      | VNull \<Rightarrow> Ok 0
      | VBool b \<Rightarrow> Ok (if b then 1 else 0)
      | VNum n \<Rightarrow> Ok (signed 32 (n mod 2 ^ 32))
      | VEndBlock \<Rightarrow> Ok 0
      | VRef a \<Rightarrow>
          (if a < length (heap st)
           then (case heap st ! a of
                   HClass c \<Rightarrow> Ok 0
                 | HObject ob \<Rightarrow>
                     if str ''toString'' \<in> fst ` set (od_props ob) then Err TypeError else Ok 0
                 | HArray ar \<Rightarrow> Unmodelled)
           else Unmodelled)
      | _ \<Rightarrow> Unmodelled)"

text \<open>
  The \<^verbatim>\<open>default\<close> branch of \<^verbatim>\<open>classdata\<close> builds its message from
  \<^verbatim>\<open>cls.flags.toString(16)\<close>, which throws a TypeError of its own when
  \<^verbatim>\<open>cls.flags\<close> is \<^verbatim>\<open>undefined\<close> or \<^verbatim>\<open>null\<close> or has no callable
  \<^verbatim>\<open>toString\<close>.
\<close>

definition unknownFlags :: "pstate \<Rightarrow> val \<Rightarrow> 'a outcome" where
  "unknownFlags st fl =
     (case fl of
        VUndefined \<Rightarrow> Err TypeError
      | VNull \<Rightarrow> Err TypeError
      | VNum n \<Rightarrow> Err (UnknownFlags fl)
      | _ \<Rightarrow> onOk (toStr st fl) (\<lambda>s. Err (UnknownFlags fl)))"

text \<open>
  \<^verbatim>\<open>classDesc.name.charAt(1)\<close> in \<^verbatim>\<open>parseArray\<close>: only a string and a String
  object have a \<^verbatim>\<open>charAt\<close> to call.
\<close>

definition arrayType :: "pstate \<Rightarrow> val \<Rightarrow> jstring outcome" where
  "arrayType st cls =
     onOk (getProp st cls KName) (\<lambda>nm.
       case nm of
         VStr s \<Rightarrow> Ok (charAt 1 s)
       | VEnum c t \<Rightarrow> Ok (charAt 1 t)
       | _ \<Rightarrow> Err TypeError)"

text \<open>
  \<^verbatim>\<open>cls.fields\<close>, as \<^verbatim>\<open>values\<close> reads it once: the array of field descriptors of a
  class descriptor, by reference (\<open>ClassFields\<close>, with the address of the descriptor),
  or any other value. The loop of \<^verbatim>\<open>values\<close> tests \<^verbatim>\<open>i < fields.length\<close>
  (\<open>moreFields\<close>) and reads \<^verbatim>\<open>fields[i].type\<close> and \<^verbatim>\<open>fields[i].name\<close>
  (\<open>fieldAt\<close>). A string, a String object, a Buffer and an array have a length and
  elements; a parsed object has them if it has fields named so; any other value has no
  length, and the loop does not run.
\<close>

datatype fieldsRef = ClassFields nat | OtherFields val

definition fieldsOf :: "pstate \<Rightarrow> val \<Rightarrow> fieldsRef outcome" where
  "fieldsOf st cls =
     (case cls of
        VUndefined \<Rightarrow> Err TypeError
      | VNull \<Rightarrow> Err TypeError
      | VRef a \<Rightarrow>
          (if a < length (heap st)
           then (case heap st ! a of
                   HClass c \<Rightarrow>
                     Ok (case cd_fields c of
                           None \<Rightarrow> OtherFields VUndefined
                         | Some fs \<Rightarrow> ClassFields a)
                 | HObject ob \<Rightarrow> Ok (OtherFields (ownProp (od_props ob) (str ''fields'')))
                 | HArray ar \<Rightarrow> Ok (OtherFields VUndefined))
           else Unmodelled)
      | _ \<Rightarrow> Ok (OtherFields VUndefined))"

definition lessThanVal :: "int \<Rightarrow> val \<Rightarrow> bool outcome" where
  "lessThanVal i v =
     (case v of
        VUndefined \<Rightarrow> Ok False
      | VNull \<Rightarrow> Ok (i < 0)
      | VBool b \<Rightarrow> Ok (i < (if b then 1 else 0))
      | VNum n \<Rightarrow> Ok (i < n)
      | _ \<Rightarrow> Unmodelled)"

definition moreFields :: "pstate \<Rightarrow> fieldsRef \<Rightarrow> nat \<Rightarrow> bool outcome" where
  "moreFields st F i =
     (case F of
        ClassFields a \<Rightarrow>
          (if a < length (heap st)
           then (case heap st ! a of
                   HClass c \<Rightarrow>
                     (case cd_fields c of
                        None \<Rightarrow> Unmodelled
                      | Some fs \<Rightarrow> Ok (i < length fs))
                 | _ \<Rightarrow> Unmodelled)
           else Unmodelled)
      | OtherFields v \<Rightarrow>
          (case v of
             VUndefined \<Rightarrow> Err TypeError
           | VNull \<Rightarrow> Err TypeError
           | VStr s \<Rightarrow> Ok (i < length s)
           | VEnum c t \<Rightarrow> Ok (i < length t)
           | VBuf b \<Rightarrow> Ok (i < length b)
           | VSeq vs \<Rightarrow> Ok (i < length vs)
           | VRef a \<Rightarrow>
               (if a < length (heap st)
                then (case heap st ! a of
                        HClass c \<Rightarrow> Ok False
                      | HObject ob \<Rightarrow> lessThanVal (int i) (ownProp (od_props ob) (str ''length''))
                      | HArray ar \<Rightarrow> Ok (i < length (ad_elems ar)))
                else Unmodelled)
           | _ \<Rightarrow> Ok False))"

definition nthOr :: "'a list \<Rightarrow> nat \<Rightarrow> ('a \<Rightarrow> val) \<Rightarrow> val" where
  "nthOr xs i f = (if i < length xs then f (xs ! i) else VUndefined)"

definition elementAt :: "pstate \<Rightarrow> val \<Rightarrow> nat \<Rightarrow> val outcome" where
  "elementAt st v i =
     (case v of
        VStr s \<Rightarrow> Ok (nthOr s i (\<lambda>c. VStr [c]))
      | VEnum c t \<Rightarrow> Ok (nthOr t i (\<lambda>c. VStr [c]))
      | VBuf b \<Rightarrow> Ok (nthOr b i (\<lambda>x. VNum (uint x)))
      | VSeq vs \<Rightarrow> Ok (nthOr vs i (\<lambda>x. x))
      | VRef a \<Rightarrow>
          (if a < length (heap st)
           then (case heap st ! a of
                   HClass c \<Rightarrow> Unmodelled
                 | HObject ob \<Rightarrow> Ok (ownProp (od_props ob) (decimal (int i)))
                 | HArray ar \<Rightarrow> Ok (nthOr (ad_elems ar) i (\<lambda>x. x)))
           else Unmodelled)
      | _ \<Rightarrow> Unmodelled)"

definition fieldAt :: "pstate \<Rightarrow> fieldsRef \<Rightarrow> nat \<Rightarrow> (val \<times> val) outcome" where
  "fieldAt st F i =
     (case F of
        ClassFields a \<Rightarrow>
          (if a < length (heap st)
           then (case heap st ! a of
                   HClass c \<Rightarrow>
                     (case cd_fields c of
                        None \<Rightarrow> Unmodelled
                      | Some fs \<Rightarrow>
                          if i < length fs
                          then Ok (VStr (fd_type (fs ! i)), VStr (fd_name (fs ! i)))
                          else Unmodelled)
                 | _ \<Rightarrow> Unmodelled)
           else Unmodelled)
      | OtherFields v \<Rightarrow>
          onOk (elementAt st v i) (\<lambda>field.
          onOk (getProp st field KType) (\<lambda>t.
          onOk (getProp st field KName) (\<lambda>nm. Ok (t, nm)))))"

text \<open>
  \<^verbatim>\<open>primHandler(field.type)\<close> in \<^verbatim>\<open>values\<close>, where the type is any value: it is
  converted to a string and appended to \<^verbatim>\<open>prim\<close>. Besides the ten handlers the parser
  has the method \<^verbatim>\<open>primHandler\<close> itself, which is found for the type \<^verbatim>\<open>Handler\<close>
  and, called without an argument, throws for the type \<^verbatim>\<open>undefined\<close>. The keys of the
  registry contain \<^verbatim>\<open>@\<close>.
\<close>

definition fieldHandler :: "pstate \<Rightarrow> val \<Rightarrow> prim outcome" where
  "fieldHandler st t =
     onOk (toStr st t) (\<lambda>s.
       case primHandler s of
         Inr h \<Rightarrow> Ok h
       | Inl e \<Rightarrow>
           if s = str ''Handler'' then Err (UnknownFieldType (str ''undefined''))
           else if 0x40 \<in> set s \<and> registry st (str ''prim'' @ s) \<noteq> None then Unmodelled
           else Err e)"

text \<open>
  \<^verbatim>\<open>vals["__proto__"] = v\<close> on a plain object calls the setter of
  \<^verbatim>\<open>Object.prototype\<close>, which ignores a value that is neither an object nor
  \<^verbatim>\<open>null\<close>.
\<close>

definition protoKey :: jstring where
  "protoKey = str ''__proto__''"

fun protoIgnores :: "val \<Rightarrow> bool" where
  "protoIgnores VUndefined = True"
| "protoIgnores (VBool b) = True"
| "protoIgnores (VNum n) = True"
| "protoIgnores (VFloat w) = True"
| "protoIgnores (VDouble w) = True"
| "protoIgnores (VStr s) = True"
| "protoIgnores _ = False"

text \<open>
  The loop \<^verbatim>\<open>for (var name in fields) obj[name] = fields[name]\<close>. The properties
  \<^verbatim>\<open>class\<close> and \<^verbatim>\<open>extends\<close> of \<^verbatim>\<open>obj\<close> were defined without
  \<^verbatim>\<open>writable\<close>, so the assignment throws in strict mode. Otherwise every entry of
  the group is written over the properties of the object (\<open>AList.merge\<close>); the order
  in which the loop visits the keys does not matter, since the keys of one group are
  distinct. Only a post-processor can return a group with the key \<^verbatim>\<open>__proto__\<close>.
\<close>

definition flatten :: "group \<Rightarrow> group \<Rightarrow> group outcome" where
  "flatten grp props =
     (if protoKey \<in> fst ` set grp then Unmodelled
      else if str ''class'' \<in> fst ` set grp \<or> str ''extends'' \<in> fst ` set grp
      then Err TypeError
      else Ok (AList.merge props grp))"

definition classDescAllowed :: "name list" where
  "classDescAllowed = [ClassDesc, ProxyClassDesc, Null, Reference]"


definition getObject :: "pstate \<Rightarrow> nat \<Rightarrow> ObjectDesc outcome" where
  "getObject st a =
     (if a < length (heap st)
      then (case heap st ! a of HObject ob \<Rightarrow> Ok ob | _ \<Rightarrow> Unmodelled)
      else Unmodelled)"

text \<open>
  The two statements of \<^verbatim>\<open>recursiveClassData\<close> after the group is read:
  \<^verbatim>\<open>obj.extends[key] = fields\<close>, where the key \<^verbatim>\<open>__proto__\<close> adds no property to
  \<^verbatim>\<open>extends\<close> but makes the group its prototype, and the loop that copies the group
  into the object.
\<close>

definition assignGroup :: "jstring \<Rightarrow> group \<Rightarrow> nat \<Rightarrow> unit parser" where
  "assignGroup key grp obj st =
     onOk (getObject st obj) (\<lambda>ob.
     onOk (flatten grp (od_props ob)) (\<lambda>props.
       Ok ((), updObject obj
                 (\<lambda>ob. (if key = protoKey then ob\<lparr>od_extendsProto := Some grp\<rparr>
                         else ob\<lparr>od_extends := AList.update key grp (od_extends ob)\<rparr>)
                        \<lparr>od_props := props\<rparr>) st)))"

subsection \<open>The methods that decode nested content\<close>

text \<open>
  Every function of this group gives \<open>OutOfFuel\<close> at fuel 0 and calls the others with
  one unit less. The loops are the functions \<open>annotations\<close> (its third argument is the
  array built so far), \<open>fieldDescs\<close> (the \<^verbatim>\<open>for\<close> loop of \<^verbatim>\<open>parseClassDesc\<close>),
  \<open>values'\<close> (the loop of \<^verbatim>\<open>values\<close>; its arguments are the loop's variables
  \<^verbatim>\<open>fields\<close>, \<^verbatim>\<open>i\<close> and \<^verbatim>\<open>vals\<close>) and
  \<open>arrayElems\<close> (the \<^verbatim>\<open>for\<close> loop of \<^verbatim>\<open>parseArray\<close>). \<^verbatim>\<open>classDesc()\<close> is
  \<open>content\<close> with the allow-list \<open>classDescAllowed\<close>. \<open>callPrim\<close> is
  \<^verbatim>\<open>handler.call(this)\<close> for the handler that \<open>primHandler\<close> found.

  In \<^verbatim>\<open>obj.extends[cls.name] = this.classdata(cls, obj)\<close> the name is read before
  \<^verbatim>\<open>classdata\<close> is called and used as a key after it. In
  \<^verbatim>\<open>vals[field.name] = handler.call(this)\<close> the name is read before the call as well;
  there the key \<^verbatim>\<open>__proto__\<close> changes nothing when the value is no object.
\<close>

function (sequential) content :: "nat \<Rightarrow> name list option \<Rightarrow> val parser"
and annotations :: "nat \<Rightarrow> name list option \<Rightarrow> val list \<Rightarrow> (val list) parser"
and parseClassDesc :: "nat \<Rightarrow> val parser"
and fieldDescs :: "nat \<Rightarrow> nat \<Rightarrow> int \<Rightarrow> int \<Rightarrow> unit parser"
and fieldDesc :: "nat \<Rightarrow> FieldDesc parser"
and parseClass :: "nat \<Rightarrow> val parser"
and parseObject :: "nat \<Rightarrow> val parser"
and recursiveClassData :: "nat \<Rightarrow> val \<Rightarrow> nat \<Rightarrow> unit parser"
and classdata :: "nat \<Rightarrow> val \<Rightarrow> group parser"
and values' :: "nat \<Rightarrow> fieldsRef \<Rightarrow> nat \<Rightarrow> group \<Rightarrow> group parser"
and parseArray :: "nat \<Rightarrow> val parser"
and arrayElems :: "nat \<Rightarrow> nat \<Rightarrow> prim \<Rightarrow> int \<Rightarrow> int \<Rightarrow> unit parser"
and parseEnum :: "nat \<Rightarrow> val parser"
and callPrim :: "nat \<Rightarrow> prim \<Rightarrow> val parser"
where
  "content 0 allowed st = OutOfFuel"
| "content (Suc n) allowed st =
     andThen (readUInt8 st) (\<lambda>b st1.
       let tc = b - 0x70 in
       if tc < 0 \<or> tc > int (length names) then Err (UnknownType (tc + 0x70))
       else
         let name = (if nat tc < length names then Some (names ! nat tc) else None) in
         if (case allowed of
               None \<Rightarrow> False
             | Some al \<Rightarrow> (case name of None \<Rightarrow> True | Some k \<Rightarrow> k \<notin> set al))
         then Err (NotAllowed name)
         else (case name of
                 Some Null \<Rightarrow> parseNull st1
               | Some Reference \<Rightarrow> parseReference st1
               | Some ClassDesc \<Rightarrow> parseClassDesc n st1
               | Some Object \<Rightarrow> parseObject n st1
               | Some String \<Rightarrow> parseString st1
               | Some Array \<Rightarrow> parseArray n st1
               | Some Class \<Rightarrow> parseClass n st1
               | Some BlockData \<Rightarrow> parseBlockData st1
               | Some EndBlockData \<Rightarrow> parseEndBlockData st1
               | Some BlockDataLong \<Rightarrow> parseBlockDataLong st1
               | Some LongString \<Rightarrow> parseLongString st1
               | Some Enum \<Rightarrow> parseEnum n st1
               | _ \<Rightarrow> Err (NoHandler name)))"
| "annotations 0 allowed anns st = OutOfFuel"
| "annotations (Suc n) allowed anns st =
     andThen (content n allowed st) (\<lambda>annotation st1.
       if annotation = VEndBlock then Ok (anns, st1)
       else annotations n allowed (anns @ [annotation]) st1)"
| "parseClassDesc 0 st = OutOfFuel"
| "parseClassDesc (Suc n) st =
     andThen (utf st) (\<lambda>name st1.
     andThen (readHex 8 st1) (\<lambda>uid st2.
       let (res, st3) =
             alloc (HClass \<lparr>cd_name = name, cd_serialVersionUID = uid, cd_flags = None,
                            cd_isEnum = None, cd_fields = None, cd_annotations = None,
                            cd_super = None\<rparr>) st2;
           st4 = newHandle (VRef res) st3
       in
     andThen (readUInt8 st4) (\<lambda>flags st5.
       let st6 = updClass res
                   (\<lambda>c. c\<lparr>cd_flags := Some flags, cd_isEnum := Some (flags AND 0x10 \<noteq> 0)\<rparr>) st5
       in
     andThen (readUInt16 st6) (\<lambda>count st7.
       let st8 = updClass res (\<lambda>c. c\<lparr>cd_fields := Some []\<rparr>) st7 in
     andThen (fieldDescs n res 0 count st8) (\<lambda>_ st9.
     andThen (annotations n None [] st9) (\<lambda>anns st10.
       let st11 = updClass res (\<lambda>c. c\<lparr>cd_annotations := Some anns\<rparr>) st10 in
     andThen (content n (Some classDescAllowed) st11) (\<lambda>superCls st12.
       Ok (VRef res, updClass res (\<lambda>c. c\<lparr>cd_super := Some superCls\<rparr>) st12))))))))"
| "fieldDescs 0 res i count st = OutOfFuel"
| "fieldDescs (Suc n) res i count st =
     (if i < count
      then andThen (fieldDesc n st) (\<lambda>fd st1.
             fieldDescs n res (i + 1) count
               (updClass res
                  (\<lambda>c. c\<lparr>cd_fields := map_option (\<lambda>fs. fs @ [fd]) (cd_fields c)\<rparr>) st1))
      else Ok ((), st))"
| "fieldDesc 0 st = OutOfFuel"
| "fieldDesc (Suc n) st =
     andThen (readUInt8 st) (\<lambda>t st1.
     andThen (utf st1) (\<lambda>name st2.
       let type = [word_of_int t] in
       if type = str ''['' \<or> type = str ''L''
       then andThen (content n None st2) (\<lambda>cn st3.
              Ok (\<lparr>fd_type = type, fd_name = name, fd_className = Some cn\<rparr>, st3))
       else Ok (\<lparr>fd_type = type, fd_name = name, fd_className = None\<rparr>, st2)))"
| "parseClass 0 st = OutOfFuel"
| "parseClass (Suc n) st =
     andThen (content n (Some classDescAllowed) st) (\<lambda>cd st1. Ok (cd, newHandle cd st1))"
| "parseObject 0 st = OutOfFuel"
| "parseObject (Suc n) st =
     andThen (content n (Some classDescAllowed) st) (\<lambda>cls st1.
       let (res, st2) = alloc (HObject \<lparr>od_class = cls, od_extends = [], od_extendsProto = None,
                                       od_props = []\<rparr>) st1;
           st3 = newHandle (VRef res) st2
       in andThen (recursiveClassData n cls res st3) (\<lambda>_ st4. Ok (VRef res, st4)))"
| "recursiveClassData 0 cls obj st = OutOfFuel"
| "recursiveClassData (Suc n) cls obj st =
     onOk (getProp st cls KSuper) (\<lambda>superCls.
     andThen (if truthy superCls then recursiveClassData n superCls obj st else Ok ((), st))
       (\<lambda>_ st1.
     onOk (getProp st1 cls KName) (\<lambda>nm.
     andThen (classdata n cls st1) (\<lambda>grp st2.
     onOk (toStr st2 nm) (\<lambda>key. assignGroup key grp obj st2)))))"
| "classdata 0 cls st = OutOfFuel"
| "classdata (Suc n) cls st =
     onOk (getProp st cls KName) (\<lambda>nm.
     onOk (toStr st nm) (\<lambda>name.
     onOk (getProp st cls KSerialVersionUID) (\<lambda>uid.
     onOk (toStr st uid) (\<lambda>serialVersionUID.
       let postproc = registry st (name @ str ''@'' @ serialVersionUID) in
     onOk (getProp st cls KFlags) (\<lambda>fl.
     onOk (toInt32 st fl) (\<lambda>flags.
       if flags AND 0x0f = 0x02 then
         onOk (fieldsOf st cls) (\<lambda>flds. values' n flds 0 [] st)
       else if flags AND 0x0f = 0x03 then
         onOk (fieldsOf st cls) (\<lambda>flds.
         andThen (values' n flds 0 [] st) (\<lambda>res st1.
         andThen (annotations n None [] st1) (\<lambda>data st2.
           let res' = AList.update (str ''@'') (VSeq data) res in
           (case postproc of
              None \<Rightarrow> Ok (res', st2)
            | Some f \<Rightarrow>
                (case f cls res' data of
                   Inl e \<Rightarrow> Err e
                 | Inr res'' \<Rightarrow> Ok (res'', st2))))))
       else if flags AND 0x0f = 0x04 then Err ExternalV1
       else if flags AND 0x0f = 0x0c then
         andThen (annotations n None [] st) (\<lambda>data st1.
           Ok ([(str ''@'', VSeq data)], st1))
       else unknownFlags st fl))))))"
| "values' 0 flds i vals st = OutOfFuel"
| "values' (Suc n) flds i vals st =
     onOk (moreFields st flds i) (\<lambda>more.
       if more then
         onOk (fieldAt st flds i) (\<lambda>(t, nm).
         onOk (fieldHandler st t) (\<lambda>handler.
         andThen (callPrim n handler st) (\<lambda>v st1.
         onOk (toStr st1 nm) (\<lambda>key.
           if key = protoKey then
             (if protoIgnores v then values' n flds (i + 1) vals st1 else Unmodelled)
           else values' n flds (i + 1) (AList.update key v vals) st1))))
       else Ok (vals, st))"
| "parseArray 0 st = OutOfFuel"
| "parseArray (Suc n) st =
     andThen (content n (Some classDescAllowed) st) (\<lambda>clsDesc st1.
       let (res, st2) = alloc (HArray \<lparr>ad_class = clsDesc, ad_elems = []\<rparr>) st1;
           st3 = newHandle (VRef res) st2
       in
     andThen (readInt32 st3) (\<lambda>len st4.
       onOk (arrayType st4 clsDesc) (\<lambda>type.
         case primHandler type of
           Inl e \<Rightarrow> Err e
         | Inr handler \<Rightarrow>
             if len < 0 then Err RangeError
             else
               andThen (arrayElems n res handler 0 len
                          (updArray res
                             (\<lambda>ar. ar\<lparr>ad_elems := replicate (nat len) VUndefined\<rparr>) st4))
                 (\<lambda>_ st5. Ok (VRef res, st5)))))"
| "arrayElems 0 res handler i len st = OutOfFuel"
| "arrayElems (Suc n) res handler i len st =
     (if i < len
      then andThen (callPrim n handler st) (\<lambda>v st1.
             arrayElems n res handler (i + 1) len
               (updArray res (\<lambda>ar. ar\<lparr>ad_elems := (ad_elems ar)[nat i := v]\<rparr>) st1))
      else Ok ((), st))"
| "parseEnum 0 st = OutOfFuel"
| "parseEnum (Suc n) st =
     andThen (content n (Some classDescAllowed) st) (\<lambda>clazz st1.
       let (idx, st2) = newDeferredHandle st1 in
       andThen (content n None st2) (\<lambda>constant st3.
       onOk (toStr st3 constant) (\<lambda>text.
         let res = VEnum clazz text in Ok (res, assignHandle idx res st3))))"
| "callPrim 0 handler st = OutOfFuel"
| "callPrim (Suc n) handler st =
     (case handler of
        PrimB \<Rightarrow> primB st
      | PrimC \<Rightarrow> primC st
      | PrimD \<Rightarrow> primD st
      | PrimF \<Rightarrow> primF st
      | PrimI \<Rightarrow> primI st
      | PrimJ \<Rightarrow> primJ st
      | PrimS \<Rightarrow> primS st
      | PrimZ \<Rightarrow> primZ st
      | PrimL \<Rightarrow> content n None st
      | PrimArr \<Rightarrow> content n None st)"
  by pat_completeness auto

text \<open>Every call passes the fuel of the caller less one.\<close>

termination
  by (relation "measure (case_sum
        (case_sum (case_sum fst (case_sum fst fst)) (case_sum (case_sum fst fst) (case_sum fst fst)))
        (case_sum (case_sum fst (case_sum fst fst)) (case_sum (case_sum fst fst) (case_sum fst fst))))")
     simp_all

subsection \<open>The constructor\<close>

definition magic :: "unit parser" where
  "magic st =
     andThen (readUInt16 st) (\<lambda>m st'. if m \<noteq> 0xaced then Err MagicNotFound else Ok ((), st'))"

definition version :: "unit parser" where
  "version st =
     andThen (readUInt16 st) (\<lambda>v st'. if v \<noteq> 5 then Err WrongVersion else Ok ((), st'))"

fun contentsLoop :: "nat \<Rightarrow> pstate \<Rightarrow> pstate outcome" where
  "contentsLoop 0 st = OutOfFuel"
| "contentsLoop (Suc n) st =
     (if pos st < length (buf st)
      then andThen (content n None st) (\<lambda>elt st1.
             contentsLoop n (st1\<lparr>contents := contents st1 @ [elt]\<rparr>))
      else Ok st)"

definition initial :: "(jstring \<Rightarrow> parseFunc option) \<Rightarrow> (byte list \<Rightarrow> jstring) \<Rightarrow> byte list \<Rightarrow> pstate" where
  "initial reg dec b =
     \<lparr>buf = b, pos = 0, nextHandle = 0x7e0000, handles = Map.empty, contents = [],
      heap = [], registry = reg, utf8 = dec\<rparr>"

definition Parser :: "nat \<Rightarrow> pstate \<Rightarrow> pstate outcome" where
  "Parser fuel st0 =
     andThen (magic st0) (\<lambda>_ st1. andThen (version st1) (\<lambda>_ st2. contentsLoop fuel st2))"


section \<open>Definitions used to state the properties\<close>

text \<open>
  A decoder that agrees with UTF-8 on bytes below 0x80, and an empty registry: the
  parameters of the concrete streams below, which contain no other bytes in their strings
  and no class with a post-processor.
\<close>

definition asciiText :: "byte list \<Rightarrow> jstring" where
  "asciiText bs = map ucast bs"

definition stream :: "byte list \<Rightarrow> pstate" where
  "stream b = initial (\<lambda>key. None) asciiText b"

text \<open>The value and the final state of a successful run, for stating concrete instances.\<close>

definition isOk :: "'a outcome \<Rightarrow> bool" where
  "isOk r = (case r of Ok x \<Rightarrow> True | _ \<Rightarrow> False)"

definition resultValue :: "('a \<times> pstate) outcome \<Rightarrow> 'a \<Rightarrow> 'a" where
  "resultValue r d = (case r of Ok (x, st) \<Rightarrow> x | _ \<Rightarrow> d)"

definition resultState :: "('a \<times> pstate) outcome \<Rightarrow> pstate \<Rightarrow> pstate" where
  "resultState r d = (case r of Ok (x, st) \<Rightarrow> st | _ \<Rightarrow> d)"

text \<open>
  \<^verbatim>\<open>this["parse" + name].call(this)\<close>, the last step of \<open>content\<close>, on its own.
\<close>

definition callHandler :: "nat \<Rightarrow> name \<Rightarrow> val parser" where
  "callHandler n k st =
     (case k of
        Null \<Rightarrow> parseNull st
      | Reference \<Rightarrow> parseReference st
      | ClassDesc \<Rightarrow> parseClassDesc n st
      | Object \<Rightarrow> parseObject n st
      | String \<Rightarrow> parseString st
      | Array \<Rightarrow> parseArray n st
      | Class \<Rightarrow> parseClass n st
      | BlockData \<Rightarrow> parseBlockData st
      | EndBlockData \<Rightarrow> parseEndBlockData st
      | BlockDataLong \<Rightarrow> parseBlockDataLong st
      | LongString \<Rightarrow> parseLongString st
      | Enum \<Rightarrow> parseEnum n st
      | _ \<Rightarrow> Err (NoHandler (Some k)))"


text \<open>
  \<open>arrayHeader\<close> is \<open>parseArray\<close> up to and including the read of the length;
  \<open>elementHandler\<close> is the handler that \<open>parseArray\<close> selects from the second
  character of the name of the value at the class position, when there is one.
\<close>

definition arrayHeader :: "nat \<Rightarrow> (val \<times> int) parser" where
  "arrayHeader n st =
     andThen (content n (Some classDescAllowed) st) (\<lambda>clsDesc st1.
       let (res, st2) = alloc (HArray \<lparr>ad_class = clsDesc, ad_elems = []\<rparr>) st1;
           st3 = newHandle (VRef res) st2
       in andThen (readInt32 st3) (\<lambda>len st4. Ok ((clsDesc, len), st4)))"

definition elementHandler :: "pstate \<Rightarrow> val \<Rightarrow> prim option" where
  "elementHandler st cls =
     (case arrayType st cls of
        Ok type \<Rightarrow> (case primHandler type of Inl e \<Rightarrow> None | Inr h \<Rightarrow> Some h)
      | _ \<Rightarrow> None)"

text \<open>A state in which handle 0x7e0000 holds the string "a" and a reference to it follows.\<close>

definition referenceExample :: pstate where
  "referenceExample =
     (stream [0x71, 0x00, 0x7e, 0x00, 0x00])
       \<lparr>nextHandle := 0x7e0001, handles := [0x7e0000 \<mapsto> VStr (str ''a'')]\<rparr>"

text \<open>
  An array item (after its type code): descriptor \<^verbatim>\<open>[I\<close> with no fields and no super
  class, then the length -1.
\<close>

definition negativeArrayExample :: pstate where
  "negativeArrayExample =
     stream [0x72, 0x00, 0x02, 0x5b, 0x49, 0, 0, 0, 0, 0, 0, 0, 1, 0x02, 0x00, 0x00, 0x78, 0x70,
             0xff, 0xff, 0xff, 0xff]"

text \<open>
  How a state may differ from an earlier one after decoding: the buffer, the registry, the
  decoder and the top-level sequence are the same; the cursor and the next handle have not
  gone back; the handle table is unchanged outside the indices allocated in between, and
  each of those holds a value; if the end-of-block object was in no slot, it still is in
  none; the store has only grown, and every object that existed before is unchanged,
  except those at the addresses in \<open>X\<close>.
\<close>

definition cleanHandles :: "pstate \<Rightarrow> bool" where
  "cleanHandles st \<longleftrightarrow> (\<forall>i. handles st i \<noteq> Some VEndBlock)"

definition frame' :: "nat set \<Rightarrow> pstate \<Rightarrow> pstate \<Rightarrow> bool" where
  "frame' X st st' \<longleftrightarrow>
     buf st' = buf st \<and> registry st' = registry st \<and> utf8 st' = utf8 st \<and>
     contents st' = contents st \<and> pos st \<le> pos st' \<and>
     nextHandle st \<le> nextHandle st' \<and>
     (\<forall>i. i < nextHandle st \<or> nextHandle st' \<le> i \<longrightarrow> handles st' i = handles st i) \<and>
     (\<forall>i. nextHandle st \<le> i \<and> i < nextHandle st' \<longrightarrow> handles st' i \<noteq> None) \<and>
     (cleanHandles st \<longrightarrow> cleanHandles st') \<and>
     length (heap st) \<le> length (heap st') \<and>
     (\<forall>a. a < length (heap st) \<and> a \<notin> X \<longrightarrow> heap st' ! a = heap st ! a)"

definition advances :: "'a parser \<Rightarrow> bool" where
  "advances p \<longleftrightarrow> (\<forall>st x st'. p st = Ok (x, st') \<longrightarrow> (\<exists>k. st' = st\<lparr>pos := pos st + k\<rparr>))"

text \<open>The frame property of every decoding function at fuel \<open>n\<close>.\<close>

definition framed :: "nat \<Rightarrow> bool" where
  "framed n \<longleftrightarrow>
     (\<forall>al st v st'. content n al st = Ok (v, st') \<longrightarrow>
        frame' {} st st' \<and>
        (cleanHandles st \<longrightarrow> v = VEndBlock \<longrightarrow>
           readUInt8 st = Ok (0x78, st') \<and>
           (case al of None \<Rightarrow> True | Some l \<Rightarrow> EndBlockData \<in> set l))) \<and>
     (\<forall>al anns st v st'. annotations n al anns st = Ok (v, st') \<longrightarrow> frame' {} st st') \<and>
     (\<forall>st v st'. parseClassDesc n st = Ok (v, st') \<longrightarrow> frame' {} st st') \<and>
     (\<forall>res i c st v st'. fieldDescs n res i c st = Ok (v, st') \<longrightarrow> frame' {res} st st') \<and>
     (\<forall>st v st'. fieldDesc n st = Ok (v, st') \<longrightarrow> frame' {} st st') \<and>
     (\<forall>st v st'. parseClass n st = Ok (v, st') \<longrightarrow>
        frame' {} st st' \<and> (cleanHandles st \<longrightarrow> v \<noteq> VEndBlock)) \<and>
     (\<forall>st v st'. parseObject n st = Ok (v, st') \<longrightarrow> frame' {} st st') \<and>
     (\<forall>cls obj st v st'. recursiveClassData n cls obj st = Ok (v, st') \<longrightarrow> frame' {obj} st st') \<and>
     (\<forall>cls st v st'. classdata n cls st = Ok (v, st') \<longrightarrow> frame' {} st st') \<and>
     (\<forall>cls i vals st v st'. values' n cls i vals st = Ok (v, st') \<longrightarrow> frame' {} st st') \<and>
     (\<forall>st v st'. parseArray n st = Ok (v, st') \<longrightarrow> frame' {} st st') \<and>
     (\<forall>res h i len st v st'. arrayElems n res h i len st = Ok (v, st') \<longrightarrow> frame' {res} st st') \<and>
     (\<forall>st v st'. parseEnum n st = Ok (v, st') \<longrightarrow> frame' {} st st') \<and>
     (\<forall>h st v st'. callPrim n h st = Ok (v, st') \<longrightarrow> frame' {} st st')"

text \<open>Observations of a final state: the array, object or class descriptor a value refers to.\<close>

definition arrayOf :: "pstate \<Rightarrow> val \<Rightarrow> ArrayDesc option" where
  "arrayOf st v =
     (case v of
        VRef a \<Rightarrow>
          (if a < length (heap st)
           then (case heap st ! a of HArray ar \<Rightarrow> Some ar | _ \<Rightarrow> None)
           else None)
      | _ \<Rightarrow> None)"

definition objectOf :: "pstate \<Rightarrow> val \<Rightarrow> ObjectDesc option" where
  "objectOf st v =
     (case v of
        VRef a \<Rightarrow>
          (if a < length (heap st)
           then (case heap st ! a of HObject ob \<Rightarrow> Some ob | _ \<Rightarrow> None)
           else None)
      | _ \<Rightarrow> None)"

definition classOf :: "pstate \<Rightarrow> val \<Rightarrow> ClassDesc option" where
  "classOf st v =
     (case v of
        VRef a \<Rightarrow>
          (if a < length (heap st)
           then (case heap st ! a of HClass c \<Rightarrow> Some c | _ \<Rightarrow> None)
           else None)
      | _ \<Rightarrow> None)"

text \<open>
  The values that the successive calls of the handler return while the loop of
  \<^verbatim>\<open>parseArray\<close> runs from index \<open>i\<close>: each call starts where the previous one
  stopped, after its value has been stored in the array. The loop starts in the state
  \<open>elementsStart\<close>, after \<^verbatim>\<open>res.length = len\<close>.
\<close>

definition elementsStart :: "nat \<Rightarrow> int \<Rightarrow> pstate \<Rightarrow> pstate" where
  "elementsStart res len st =
     updArray res (\<lambda>ar. ar\<lparr>ad_elems := replicate (nat len) VUndefined\<rparr>) st"

fun readElems :: "nat \<Rightarrow> nat \<Rightarrow> prim \<Rightarrow> int \<Rightarrow> int \<Rightarrow> (val list) parser" where
  "readElems 0 res handler i len st = OutOfFuel"
| "readElems (Suc n) res handler i len st =
     (if i < len
      then andThen (callPrim n handler st) (\<lambda>v st1.
           andThen (readElems n res handler (i + 1) len
                      (updArray res (\<lambda>ar. ar\<lparr>ad_elems := (ad_elems ar)[nat i := v]\<rparr>) st1))
             (\<lambda>vs st2. Ok (v # vs, st2)))
      else Ok ([], st))"

text \<open>The outcome of the constructor on a stream, and its parts.\<close>

definition errorOf :: "'a outcome \<Rightarrow> error option" where
  "errorOf r = (case r of Err e \<Rightarrow> Some e | _ \<Rightarrow> None)"

definition parse :: "byte list \<Rightarrow> pstate outcome" where
  "parse b = Parser 50 (stream b)"

definition parsed :: "byte list \<Rightarrow> pstate" where
  "parsed b = (case parse b of Ok st \<Rightarrow> st | _ \<Rightarrow> stream b)"

text \<open>
  An array item (after its type code) of two ints, 1 and -2, with descriptor \<^verbatim>\<open>[I\<close>.
\<close>

definition intArrayExample :: pstate where
  "intArrayExample =
     stream [0x72, 0x00, 0x02, 0x5b, 0x49, 0, 0, 0, 0, 0, 0, 0, 1, 0x02, 0x00, 0x00, 0x78, 0x70,
             0x00, 0x00, 0x00, 0x02, 0x00, 0x00, 0x00, 0x01, 0xff, 0xff, 0xff, 0xfe]"

text \<open>
  The header, then an object of a class \<^verbatim>\<open>X\<close> with one field \<^verbatim>\<open>name\<close>, whose value is
  the string \<^verbatim>\<open>[I\<close>, then an array item whose class position is a reference to that
  object, with one element, 7.
\<close>

definition objectClassArrayStream :: "byte list" where
  "objectClassArrayStream =
     [0xac, 0xed, 0x00, 0x05,
      0x73, 0x72, 0x00, 0x01, 0x58, 0, 0, 0, 0, 0, 0, 0, 1, 0x02, 0x00, 0x01,
        0x4c, 0x00, 0x04, 0x6e, 0x61, 0x6d, 0x65, 0x74, 0x00, 0x01, 0x53, 0x78, 0x70,
        0x74, 0x00, 0x02, 0x5b, 0x49,
      0x75, 0x71, 0x00, 0x7e, 0x00, 0x02, 0x00, 0x00, 0x00, 0x01, 0x00, 0x00, 0x00, 0x07]"

text \<open>The state of that parse after the type code of the array item.\<close>

definition objectClassArrayItem :: pstate where
  "objectClassArrayItem =
     (resultState (content 10 None ((stream objectClassArrayStream)\<lparr>pos := 4\<rparr>)) (stream []))
       \<lparr>pos := 39\<rparr>"

text \<open>The header, then an array item with a descriptor named \<^verbatim>\<open>XI\<close> and length 0.\<close>

definition xiArrayStream :: "byte list" where
  "xiArrayStream =
     [0xac, 0xed, 0x00, 0x05, 0x75, 0x72, 0x00, 0x02, 0x58, 0x49, 0, 0, 0, 0, 0, 0, 0, 1,
      0x02, 0x00, 0x00, 0x78, 0x70, 0x00, 0x00, 0x00, 0x00]"

text \<open>
  The type-code bytes at which the top-level items start: the constructor's loop, with the
  byte under the cursor recorded before each item.
\<close>

fun topCodes :: "nat \<Rightarrow> pstate \<Rightarrow> int list" where
  "topCodes 0 st = []"
| "topCodes (Suc n) st =
     (if pos st < length (buf st)
      then (case content n None st of
              Ok (elt, st1) \<Rightarrow>
                uint (buf st ! pos st) # topCodes n (st1\<lparr>contents := contents st1 @ [elt]\<rparr>)
            | _ \<Rightarrow> [])
      else [])"

definition isEndBlock :: "val \<Rightarrow> bool" where
  "isEndBlock v \<longleftrightarrow> v = VEndBlock"

definition isEndBlockCode :: "int \<Rightarrow> bool" where
  "isEndBlockCode c \<longleftrightarrow> c = 0x78"

text \<open>The header followed by an EndBlockData item and a Null item.\<close>

definition endBlockStream :: "byte list" where
  "endBlockStream = [0xac, 0xed, 0x00, 0x05, 0x78, 0x70]"

text \<open>
  The per-class data as the specification words it, to be compared with \<open>classdata\<close>.
  \<open>fieldValues\<close> reads one value per field of a field list, in the order of the list,
  into a map from names to values. \<open>readClassData\<close> selects on the low nibble of the
  flags; \<open>postproc\<close> is the post-processor registered for the class, if any.
\<close>

fun fieldValues :: "nat \<Rightarrow> FieldDesc list \<Rightarrow> group \<Rightarrow> group parser" where
  "fieldValues 0 fs vals st = OutOfFuel"
| "fieldValues (Suc n) [] vals st = Ok (vals, st)"
| "fieldValues (Suc n) (f # fs) vals st =
     onOk (fieldHandler st (VStr (fd_type f))) (\<lambda>reader.
       andThen (callPrim n reader st) (\<lambda>v st1.
         if fd_name f = protoKey then
           (if protoIgnores v then fieldValues n fs vals st1 else Unmodelled)
         else fieldValues n fs (AList.update (fd_name f) v vals) st1))"

definition readClassData ::
    "nat \<Rightarrow> int \<Rightarrow> FieldDesc list \<Rightarrow> parseFunc option \<Rightarrow> val \<Rightarrow> group parser" where
  "readClassData n flags flds postproc cls st =
     (if flags AND 0x0f = 0x02 then fieldValues n flds [] st
      else if flags AND 0x0f = 0x03 then
        andThen (fieldValues n flds [] st) (\<lambda>grp st1.
        andThen (annotations n None [] st1) (\<lambda>block st2.
          (case postproc of
             None \<Rightarrow> Ok (AList.update (str ''@'') (VSeq block) grp, st2)
           | Some f \<Rightarrow>
               (case f cls (AList.update (str ''@'') (VSeq block) grp) block of
                  Inl e \<Rightarrow> Err e
                | Inr replaced \<Rightarrow> Ok (replaced, st2)))))
      else if flags AND 0x0f = 0x04 then Err ExternalV1
      else if flags AND 0x0f = 0x0c then
        andThen (annotations n None [] st) (\<lambda>block st1. Ok ([(str ''@'', VSeq block)], st1))
      else Err (UnknownFlags (VNum flags)))"

text \<open>
  The state after decoding a class descriptor \<^verbatim>\<open>A\<close> with flags 0x03 and one int field
  \<^verbatim>\<open>x\<close>; what follows in the buffer is the int 5 and an annotation block of one
  BlockData item.
\<close>

definition classDataExample :: pstate where
  "classDataExample =
     resultState
       (parseClassDesc 9
          (stream [0x00, 0x01, 0x41, 0, 0, 0, 0, 0, 0, 0, 1, 0x03, 0x00, 0x01,
                   0x49, 0x00, 0x01, 0x78, 0x78, 0x70,
                   0x00, 0x00, 0x00, 0x05, 0x77, 0x01, 0xaa, 0x78]))
       (stream [])"

text \<open>
  The state after decoding, as a top-level item, a class descriptor \<^verbatim>\<open>A\<close> with flags
  0x02 and the fields \<^verbatim>\<open>x\<close> (an int) and \<^verbatim>\<open>y\<close> (an object); the class-name position
  of \<^verbatim>\<open>y\<close> holds an object whose class is \<^verbatim>\<open>A\<close> itself, by reference, followed by
  the int 7.
\<close>

definition lateFieldStream :: "byte list" where
  "lateFieldStream =
     [0xac, 0xed, 0x00, 0x05,
      0x72, 0x00, 0x01, 0x41, 0, 0, 0, 0, 0, 0, 0, 1, 0x02, 0x00, 0x02,
        0x49, 0x00, 0x01, 0x78,
        0x4c, 0x00, 0x01, 0x79,
          0x73, 0x71, 0x00, 0x7e, 0x00, 0x00, 0x00, 0x00, 0x00, 0x07,
        0x78, 0x70]"







text \<open>
  \<^verbatim>\<open>parseObject\<close> up to the entry of the new object in the handle table: the class
  position is decoded, then the object is created and stored.
\<close>

definition enterObject :: "val \<Rightarrow> pstate \<Rightarrow> pstate" where
  "enterObject cls st =
     newHandle (VRef (length (heap st)))
       (st\<lparr>heap := heap st @ [HObject \<lparr>od_class = cls, od_extends = [], od_extendsProto = None,
                                      od_props = []\<rparr>]\<rparr>)"




text \<open>
  \<open>allocatesBlock st st'\<close>: between the two states the indices from the next handle of
  the first up to the next handle of the second were allocated, each with a value, and no
  other slot was written.
\<close>

definition allocatesBlock :: "pstate \<Rightarrow> pstate \<Rightarrow> bool" where
  "allocatesBlock st st' \<longleftrightarrow>
     nextHandle st \<le> nextHandle st' \<and>
     (\<forall>i. i < nextHandle st \<or> nextHandle st' \<le> i \<longrightarrow> handles st' i = handles st i) \<and>
     (\<forall>i. nextHandle st \<le> i \<and> i < nextHandle st' \<longrightarrow> handles st' i \<noteq> None)"

text \<open>
  When the slot of an item is written, relative to the decoding of what the item contains.
  \<open>st\<close> is the state after the type code, \<open>v\<close> the value of the item and \<open>st'\<close> the
  state after it. Each predicate lists the steps of the handler in their order, every
  state being the result of the step before, and says what the item's slot holds in the
  states from which nested content is decoded.

  A class descriptor is entered at the next handle once its name and serialVersionUID are
  read; its field descriptors, its annotations and its super class are decoded from states
  in which the slot holds the descriptor.
\<close>

definition enterClassDesc :: "jstring \<Rightarrow> jstring \<Rightarrow> pstate \<Rightarrow> pstate" where
  "enterClassDesc name uid st =
     newHandle (VRef (length (heap st)))
       (st\<lparr>heap := heap st @
          [HClass \<lparr>cd_name = name, cd_serialVersionUID = uid, cd_flags = None,
                   cd_isEnum = None, cd_fields = None, cd_annotations = None,
                   cd_super = None\<rparr>]\<rparr>)"

definition descriptorWrittenEarly :: "nat \<Rightarrow> pstate \<Rightarrow> val \<Rightarrow> pstate \<Rightarrow> bool" where
  "descriptorWrittenEarly n st v st' \<longleftrightarrow>
     (\<exists>name s1 uid s2 flags s5 count s7 s9 anns s10 superCls s12.
        utf st = Ok (name, s1) \<and> readHex 8 s1 = Ok (uid, s2) \<and>
        v = VRef (length (heap s2)) \<and>
        handles (enterClassDesc name uid s2) (nextHandle st) = Some v \<and>
        nextHandle (enterClassDesc name uid s2) = nextHandle st + 1 \<and>
        readUInt8 (enterClassDesc name uid s2) = Ok (flags, s5) \<and>
        readUInt16 (updClass (length (heap s2))
                      (\<lambda>c. c\<lparr>cd_flags := Some flags, cd_isEnum := Some (flags AND 0x10 \<noteq> 0)\<rparr>) s5)
          = Ok (count, s7) \<and>
        handles (updClass (length (heap s2)) (\<lambda>c. c\<lparr>cd_fields := Some []\<rparr>) s7) (nextHandle st)
          = Some v \<and>
        fieldDescs n (length (heap s2)) 0 count
          (updClass (length (heap s2)) (\<lambda>c. c\<lparr>cd_fields := Some []\<rparr>) s7) = Ok ((), s9) \<and>
        handles s9 (nextHandle st) = Some v \<and>
        annotations n None [] s9 = Ok (anns, s10) \<and>
        handles (updClass (length (heap s2)) (\<lambda>c. c\<lparr>cd_annotations := Some anns\<rparr>) s10)
          (nextHandle st) = Some v \<and>
        content n (Some classDescAllowed)
          (updClass (length (heap s2)) (\<lambda>c. c\<lparr>cd_annotations := Some anns\<rparr>) s10)
          = Ok (superCls, s12) \<and>
        st' = updClass (length (heap s2)) (\<lambda>c. c\<lparr>cd_super := Some superCls\<rparr>) s12 \<and>
        handles st' (nextHandle st) = Some v)"

text \<open>
  An object is entered once its class position is decoded; its class data is decoded from
  a state in which the slot holds the object.
\<close>

definition objectWrittenEarly :: "nat \<Rightarrow> pstate \<Rightarrow> val \<Rightarrow> pstate \<Rightarrow> bool" where
  "objectWrittenEarly n st v st' \<longleftrightarrow>
     (\<exists>cls s1.
        content n (Some classDescAllowed) st = Ok (cls, s1) \<and>
        v = VRef (length (heap s1)) \<and>
        handles (enterObject cls s1) (nextHandle s1) = Some v \<and>
        nextHandle (enterObject cls s1) = nextHandle s1 + 1 \<and>
        recursiveClassData n cls (length (heap s1)) (enterObject cls s1) = Ok ((), st') \<and>
        handles st' (nextHandle s1) = Some v)"

text \<open>
  An array is entered once its class position is decoded; its length and its elements are
  decoded from states in which the slot holds the array.
\<close>

definition enterArray :: "val \<Rightarrow> pstate \<Rightarrow> pstate" where
  "enterArray cls st =
     newHandle (VRef (length (heap st)))
       (st\<lparr>heap := heap st @ [HArray \<lparr>ad_class = cls, ad_elems = []\<rparr>]\<rparr>)"

definition arrayWrittenEarly :: "nat \<Rightarrow> pstate \<Rightarrow> val \<Rightarrow> pstate \<Rightarrow> bool" where
  "arrayWrittenEarly n st v st' \<longleftrightarrow>
     (\<exists>cls s1 len s4 h.
        content n (Some classDescAllowed) st = Ok (cls, s1) \<and>
        v = VRef (length (heap s1)) \<and>
        handles (enterArray cls s1) (nextHandle s1) = Some v \<and>
        nextHandle (enterArray cls s1) = nextHandle s1 + 1 \<and>
        readInt32 (enterArray cls s1) = Ok (len, s4) \<and>
        elementHandler s4 cls = Some h \<and>
        handles (updArray (length (heap s1))
                   (\<lambda>ar. ar\<lparr>ad_elems := replicate (nat len) VUndefined\<rparr>) s4) (nextHandle s1)
          = Some v \<and>
        arrayElems n (length (heap s1)) h 0 len
          (updArray (length (heap s1)) (\<lambda>ar. ar\<lparr>ad_elems := replicate (nat len) VUndefined\<rparr>) s4)
          = Ok ((), st') \<and>
        handles st' (nextHandle s1) = Some v)"

text \<open>
  The slot of an enum is reserved once its class position is decoded; the constant is
  decoded from a state in which the slot holds \<^verbatim>\<open>null\<close>, which it still holds when the
  constant is decoded; the enum is assigned to the slot afterwards.
\<close>

definition enumWrittenLate :: "nat \<Rightarrow> pstate \<Rightarrow> val \<Rightarrow> pstate \<Rightarrow> bool" where
  "enumWrittenLate n st v st' \<longleftrightarrow>
     (\<exists>clazz s1 cst s3 text.
        content n (Some classDescAllowed) st = Ok (clazz, s1) \<and>
        handles (snd (newDeferredHandle s1)) (nextHandle s1) = Some VNull \<and>
        nextHandle (snd (newDeferredHandle s1)) = nextHandle s1 + 1 \<and>
        content n None (snd (newDeferredHandle s1)) = Ok (cst, s3) \<and>
        handles s3 (nextHandle s1) = Some VNull \<and>
        toStr s3 cst = Ok text \<and> v = VEnum clazz text \<and>
        st' = assignHandle (nextHandle s1) v s3 \<and>
        handles st' (nextHandle s1) = Some v)"

text \<open>
  A Class item stores the value of its class position in a further slot, once that
  position is decoded. A string is stored when its bytes are read. No other item
  allocates.
\<close>

definition writtenEarly :: "nat \<Rightarrow> name \<Rightarrow> pstate \<Rightarrow> val \<Rightarrow> pstate \<Rightarrow> bool" where
  "writtenEarly n k st v st' =
     (case k of
        ClassDesc \<Rightarrow> descriptorWrittenEarly n st v st'
      | Object \<Rightarrow> objectWrittenEarly n st v st'
      | Array \<Rightarrow> arrayWrittenEarly n st v st'
      | Enum \<Rightarrow> enumWrittenLate n st v st'
      | Class \<Rightarrow>
          (\<exists>s1. content n (Some classDescAllowed) st = Ok (v, s1) \<and> st' = newHandle v s1 \<and>
             handles st' (nextHandle s1) = Some v \<and> nextHandle st' = nextHandle s1 + 1)
      | String \<Rightarrow> handles st' (nextHandle st) = Some v \<and> nextHandle st' = nextHandle st + 1
      | LongString \<Rightarrow> handles st' (nextHandle st) = Some v \<and> nextHandle st' = nextHandle st + 1
      | _ \<Rightarrow> nextHandle st' = nextHandle st \<and> handles st' = handles st)"

text \<open>
  An enum item (after its type code): descriptor \<^verbatim>\<open>E\<close> with the enum flag, then the
  string \<^verbatim>\<open>ONE\<close>; and the stream of the header followed by that item.
\<close>

definition enumItem :: "byte list" where
  "enumItem =
     [0x72, 0x00, 0x01, 0x45, 0, 0, 0, 0, 0, 0, 0, 0, 0x12, 0x00, 0x00, 0x78, 0x70,
      0x74, 0x00, 0x03, 0x4f, 0x4e, 0x45]"

definition enumStream :: "byte list" where
  "enumStream = [0xac, 0xed, 0x00, 0x05, 0x7e] @ enumItem"

section \<open>Inversion of the decoding functions\<close>

lemma andThenE:
  assumes "andThen m f = Ok r"
  obtains x st1 where "m = Ok (x, st1)" and "f x st1 = Ok r"
  using assms by (cases m) auto

lemma onOkE:
  assumes "onOk m f = Ok r"
  obtains x where "m = Ok x" and "f x = Ok r"
  using assms by (cases m) auto


lemma onOk_OutOfFuel: "onOk m f = OutOfFuel \<Longrightarrow> m = OutOfFuel \<or> (\<exists>x. m = Ok x \<and> f x = OutOfFuel)"
  by (cases m) auto

lemma getProp_decided: "getProp st v k \<noteq> OutOfFuel"
  by (auto simp: getProp_def split: val.splits hobj.splits)

lemma arrayType_decided: "arrayType st v \<noteq> OutOfFuel"
  using getProp_decided [of st v KName]
  by (auto simp: arrayType_def dest!: onOk_OutOfFuel split: val.splits)

lemma unknownFlags_not_Ok: "unknownFlags st fl \<noteq> Ok r"
  by (cases "toStr st fl") (auto simp: unknownFlags_def split: val.splits)

lemma Ok_collapse: "isOk r \<Longrightarrow> r = Ok (resultValue r dv, resultState r ds)"
  by (auto simp: isOk_def resultValue_def resultState_def split: outcome.splits)

lemma content_Suc_Ok:
  assumes "content (Suc n) al st = Ok (v, st')"
  shows "\<exists>b st1. readUInt8 st = Ok (b, st1) \<and> 0x70 \<le> b \<and> b \<le> 0x7E \<and>
           (case al of None \<Rightarrow> True | Some l \<Rightarrow> names ! nat (b - 0x70) \<in> set l) \<and>
           callHandler n (names ! nat (b - 0x70)) st1 = Ok (v, st')"
proof -
  from assms obtain b st1 where b: "readUInt8 st = Ok (b, st1)"
    and d: "(let tc = b - 0x70 in
       if tc < 0 \<or> tc > int (length names) then Err (UnknownType (tc + 0x70))
       else
         let name = (if nat tc < length names then Some (names ! nat tc) else None) in
         if (case al of
               None \<Rightarrow> False
             | Some al \<Rightarrow> (case name of None \<Rightarrow> True | Some k \<Rightarrow> k \<notin> set al))
         then Err (NotAllowed name)
         else (case name of
                 Some Null \<Rightarrow> parseNull st1
               | Some Reference \<Rightarrow> parseReference st1
               | Some ClassDesc \<Rightarrow> parseClassDesc n st1
               | Some Object \<Rightarrow> parseObject n st1
               | Some String \<Rightarrow> parseString st1
               | Some Array \<Rightarrow> parseArray n st1
               | Some Class \<Rightarrow> parseClass n st1
               | Some BlockData \<Rightarrow> parseBlockData st1
               | Some EndBlockData \<Rightarrow> parseEndBlockData st1
               | Some BlockDataLong \<Rightarrow> parseBlockDataLong st1
               | Some LongString \<Rightarrow> parseLongString st1
               | Some Enum \<Rightarrow> parseEnum n st1
               | _ \<Rightarrow> Err (NoHandler name))) = Ok (v, st')"
    by (auto elim!: andThenE)
  have len: "length names = 15" by (simp add: names_def)
  from d have r: "0 \<le> b - 0x70" "b - 0x70 \<le> 15"
    by (auto simp: Let_def len split: if_splits)
  have lt: "nat (b - 0x70) < 15"
  proof (rule ccontr)
    assume "\<not> nat (b - 0x70) < 15"
    then have "\<not> nat (b - 0x70) < length names" by (simp add: len)
    then show False using d r by (auto simp: Let_def len split: if_splits option.splits)
  qed
  then have "b \<le> 0x7E" by linarith
  moreover have "0x70 \<le> b" using r by linarith
  moreover have "(case al of None \<Rightarrow> True | Some l \<Rightarrow> names ! nat (b - 0x70) \<in> set l)"
    using d r lt by (auto simp: Let_def len split: if_splits option.splits)
  moreover have "callHandler n (names ! nat (b - 0x70)) st1 = Ok (v, st')"
    using d r lt unfolding callHandler_def
    by (auto simp: Let_def len split: if_splits option.splits name.splits)
  ultimately show ?thesis using b by blast
qed

lemma annotations_Suc_Ok:
  "annotations (Suc n) al anns st = Ok (vs, st') \<Longrightarrow>
     \<exists>a st1. content n al st = Ok (a, st1) \<and>
       (if a = VEndBlock then vs = anns \<and> st' = st1
        else annotations n al (anns @ [a]) st1 = Ok (vs, st'))"
  by (auto elim!: andThenE split: if_splits)

lemma fieldDesc_Suc_Ok:
  "fieldDesc (Suc n) st = Ok (fd, st') \<Longrightarrow>
     \<exists>t st1 name st2. readUInt8 st = Ok (t, st1) \<and> utf st1 = Ok (name, st2) \<and>
       fd_type fd = [word_of_int t] \<and> fd_name fd = name \<and>
       (if fd_type fd = str ''['' \<or> fd_type fd = str ''L''
        then \<exists>cn. content n None st2 = Ok (cn, st') \<and> fd_className fd = Some cn
        else st' = st2 \<and> fd_className fd = None)"
  by (auto simp: Let_def elim!: andThenE split: if_splits)

lemma fieldDescs_Suc_Ok:
  "fieldDescs (Suc n) res i count st = Ok (u, st') \<Longrightarrow>
     (if i < count
      then \<exists>fd st1. fieldDesc n st = Ok (fd, st1) \<and>
             fieldDescs n res (i + 1) count
               (updClass res (\<lambda>c. c\<lparr>cd_fields := map_option (\<lambda>fs. fs @ [fd]) (cd_fields c)\<rparr>) st1)
             = Ok (u, st')
      else st' = st)"
  by (auto elim!: andThenE split: if_splits)

lemma parseClass_Suc_Ok:
  "parseClass (Suc n) st = Ok (v, st') \<Longrightarrow>
     \<exists>st1. content n (Some classDescAllowed) st = Ok (v, st1) \<and> st' = newHandle v st1"
  by (auto elim!: andThenE)

lemma parseObject_Suc_Ok:
  "parseObject (Suc n) st = Ok (v, st') \<Longrightarrow>
     \<exists>cls st1. content n (Some classDescAllowed) st = Ok (cls, st1) \<and>
       v = VRef (length (heap st1)) \<and>
       recursiveClassData n cls (length (heap st1)) (enterObject cls st1) = Ok ((), st')"
  by (auto simp: Let_def alloc_def enterObject_def elim!: andThenE)

lemma parseEnum_Suc_Ok:
  "parseEnum (Suc n) st = Ok (v, st') \<Longrightarrow>
     \<exists>clazz st1 cst st3 text. content n (Some classDescAllowed) st = Ok (clazz, st1) \<and>
       content n None
         (st1\<lparr>handles := (handles st1)(nextHandle st1 \<mapsto> VNull), nextHandle := nextHandle st1 + 1\<rparr>)
       = Ok (cst, st3) \<and> toStr st3 cst = Ok text \<and>
       v = VEnum clazz text \<and> st' = assignHandle (nextHandle st1) (VEnum clazz text) st3"
  by (auto simp: Let_def newDeferredHandle_def elim!: andThenE onOkE)

lemma arrayElems_Suc_Ok:
  "arrayElems (Suc n) res h i len st = Ok (u, st') \<Longrightarrow>
     (if i < len
      then \<exists>v st1. callPrim n h st = Ok (v, st1) \<and>
             arrayElems n res h (i + 1) len
               (updArray res (\<lambda>ar. ar\<lparr>ad_elems := (ad_elems ar)[nat i := v]\<rparr>) st1) = Ok (u, st')
      else st' = st)"
  by (auto elim!: andThenE split: if_splits)

lemma values'_Suc_Ok:
  assumes "values' (Suc n) flds i vals st = Ok (g, st')"
  shows "(moreFields st flds i = Ok False \<and> g = vals \<and> st' = st) \<or>
     (\<exists>t nm h v st1. moreFields st flds i = Ok True \<and> fieldAt st flds i = Ok (t, nm) \<and>
        fieldHandler st t = Ok h \<and> callPrim n h st = Ok (v, st1) \<and>
        toStr st1 nm = Ok protoKey \<and> protoIgnores v \<and>
        values' n flds (i + 1) vals st1 = Ok (g, st')) \<or>
     (\<exists>t nm h v st1 key. moreFields st flds i = Ok True \<and> fieldAt st flds i = Ok (t, nm) \<and>
        fieldHandler st t = Ok h \<and> callPrim n h st = Ok (v, st1) \<and>
        toStr st1 nm = Ok key \<and> key \<noteq> protoKey \<and>
        values' n flds (i + 1) (AList.update key v vals) st1 = Ok (g, st'))"
proof -
  from assms obtain more where m: "moreFields st flds i = Ok more"
    and r: "(if more then
         onOk (fieldAt st flds i) (\<lambda>(t, nm).
         onOk (fieldHandler st t) (\<lambda>handler.
         andThen (callPrim n handler st) (\<lambda>v st1.
         onOk (toStr st1 nm) (\<lambda>key.
           if key = protoKey then
             (if protoIgnores v then values' n flds (i + 1) vals st1 else Unmodelled)
           else values' n flds (i + 1) (AList.update key v vals) st1))))
       else Ok (vals, st)) = Ok (g, st')"
    by (auto elim!: onOkE)
  show ?thesis
  proof (cases more)
    case False
    then show ?thesis using m r by simp
  next
    case True
    with r obtain t nm h v st1 key where a: "fieldAt st flds i = Ok (t, nm)"
      and b: "fieldHandler st t = Ok h" and c: "callPrim n h st = Ok (v, st1)"
      and d: "toStr st1 nm = Ok key"
      and e: "(if key = protoKey then
             (if protoIgnores v then values' n flds (i + 1) vals st1 else Unmodelled)
           else values' n flds (i + 1) (AList.update key v vals) st1) = Ok (g, st')"
      by (auto elim!: onOkE andThenE)
    show ?thesis
    proof (cases "key = protoKey")
      case k: True
      then have "protoIgnores v \<and> values' n flds (i + 1) vals st1 = Ok (g, st')"
        using e by (auto split: if_splits)
      then have "\<exists>t nm h v st1. moreFields st flds i = Ok True \<and> fieldAt st flds i = Ok (t, nm) \<and>
        fieldHandler st t = Ok h \<and> callPrim n h st = Ok (v, st1) \<and>
        toStr st1 nm = Ok protoKey \<and> protoIgnores v \<and>
        values' n flds (i + 1) vals st1 = Ok (g, st')"
        using m True a b c d k by auto
      then show ?thesis by simp
    next
      case k: False
      then have "values' n flds (i + 1) (AList.update key v vals) st1 = Ok (g, st')"
        using e by simp
      then have "\<exists>t nm h v st1 key. moreFields st flds i = Ok True \<and>
        fieldAt st flds i = Ok (t, nm) \<and>
        fieldHandler st t = Ok h \<and> callPrim n h st = Ok (v, st1) \<and>
        toStr st1 nm = Ok key \<and> key \<noteq> protoKey \<and>
        values' n flds (i + 1) (AList.update key v vals) st1 = Ok (g, st')"
        using m True a b c d k by auto
      then show ?thesis by simp
    qed
  qed
qed

lemma classdata_Suc_Ok:
  "classdata (Suc n) cls st = Ok (g, st') \<Longrightarrow>
     \<exists>nm name uid uidText fl flags.
       getProp st cls KName = Ok nm \<and> toStr st nm = Ok name \<and>
       getProp st cls KSerialVersionUID = Ok uid \<and> toStr st uid = Ok uidText \<and>
       getProp st cls KFlags = Ok fl \<and> toInt32 st fl = Ok flags \<and>
       ((flags AND 0x0f = 0x02 \<and>
           (\<exists>flds. fieldsOf st cls = Ok flds \<and> values' n flds 0 [] st = Ok (g, st'))) \<or>
        (flags AND 0x0f = 0x03 \<and>
           (\<exists>flds res st1 data. fieldsOf st cls = Ok flds \<and>
              values' n flds 0 [] st = Ok (res, st1) \<and>
              annotations n None [] st1 = Ok (data, st') \<and>
              (case registry st (name @ str ''@'' @ uidText) of
                 None \<Rightarrow> g = AList.update (str ''@'') (VSeq data) res
               | Some f \<Rightarrow> f cls (AList.update (str ''@'') (VSeq data) res) data = Inr g))) \<or>
        (flags AND 0x0f = 0x0c \<and>
           (\<exists>data. annotations n None [] st = Ok (data, st') \<and> g = [(str ''@'', VSeq data)])))"
  by (auto simp: Let_def unknownFlags_not_Ok elim!: andThenE onOkE
      split: option.splits if_splits sum.splits)

lemma assignGroup_Ok:
  "assignGroup key grp obj st = Ok (u, st') \<Longrightarrow>
     \<exists>ob props. getObject st obj = Ok ob \<and> flatten grp (od_props ob) = Ok props \<and>
       st' = updObject obj
               (\<lambda>ob. (if key = protoKey then ob\<lparr>od_extendsProto := Some grp\<rparr>
                       else ob\<lparr>od_extends := AList.update key grp (od_extends ob)\<rparr>)
                      \<lparr>od_props := props\<rparr>) st"
  by (auto simp: assignGroup_def elim!: onOkE)

lemma recursiveClassData_Suc_Ok:
  "recursiveClassData (Suc n) cls obj st = Ok (u, st') \<Longrightarrow>
     \<exists>superCls st1 nm grp st2 key. getProp st cls KSuper = Ok superCls \<and>
       (if truthy superCls then recursiveClassData n superCls obj st = Ok ((), st1)
        else st1 = st) \<and>
       getProp st1 cls KName = Ok nm \<and> classdata n cls st1 = Ok (grp, st2) \<and>
       toStr st2 nm = Ok key \<and> assignGroup key grp obj st2 = Ok ((), st')"
  by (auto elim!: andThenE onOkE split: if_splits)

lemma parseArray_Suc_Ok:
  "parseArray (Suc n) st = Ok (v, st') \<Longrightarrow>
     \<exists>cls st1 len st4 t h. content n (Some classDescAllowed) st = Ok (cls, st1) \<and>
       readInt32 (newHandle (VRef (length (heap st1)))
                    (st1\<lparr>heap := heap st1 @ [HArray \<lparr>ad_class = cls, ad_elems = []\<rparr>]\<rparr>))
         = Ok (len, st4) \<and>
       arrayType st4 cls = Ok t \<and> primHandler t = Inr h \<and> 0 \<le> len \<and>
       arrayElems n (length (heap st1)) h 0 len
         (updArray (length (heap st1)) (\<lambda>ar. ar\<lparr>ad_elems := replicate (nat len) VUndefined\<rparr>) st4)
         = Ok ((), st') \<and>
       v = VRef (length (heap st1))"
  by (auto simp: Let_def alloc_def elim!: andThenE onOkE split: option.splits if_splits sum.splits)

lemma parseClassDesc_Suc_Ok:
  "parseClassDesc (Suc n) st = Ok (v, st') \<Longrightarrow>
     \<exists>name st1 uid st2 flags st5 count st7 st9 anns st10 superCls st12.
       utf st = Ok (name, st1) \<and> readHex 8 st1 = Ok (uid, st2) \<and>
       readUInt8 (newHandle (VRef (length (heap st2)))
                    (st2\<lparr>heap := heap st2 @
                       [HClass \<lparr>cd_name = name, cd_serialVersionUID = uid, cd_flags = None,
                                cd_isEnum = None, cd_fields = None, cd_annotations = None,
                                cd_super = None\<rparr>]\<rparr>)) = Ok (flags, st5) \<and>
       readUInt16 (updClass (length (heap st2))
                     (\<lambda>c. c\<lparr>cd_flags := Some flags, cd_isEnum := Some (flags AND 0x10 \<noteq> 0)\<rparr>) st5)
         = Ok (count, st7) \<and>
       fieldDescs n (length (heap st2)) 0 count
         (updClass (length (heap st2)) (\<lambda>c. c\<lparr>cd_fields := Some []\<rparr>) st7) = Ok ((), st9) \<and>
       annotations n None [] st9 = Ok (anns, st10) \<and>
       content n (Some classDescAllowed)
         (updClass (length (heap st2)) (\<lambda>c. c\<lparr>cd_annotations := Some anns\<rparr>) st10)
         = Ok (superCls, st12) \<and>
       v = VRef (length (heap st2)) \<and>
       st' = updClass (length (heap st2)) (\<lambda>c. c\<lparr>cd_super := Some superCls\<rparr>) st12"
  by (auto simp: Let_def alloc_def elim!: andThenE)

lemma callPrim_Suc_Ok:
  "callPrim (Suc n) h st = Ok (v, st') \<Longrightarrow>
     (h = PrimB \<and> primB st = Ok (v, st')) \<or> (h = PrimC \<and> primC st = Ok (v, st')) \<or>
     (h = PrimD \<and> primD st = Ok (v, st')) \<or> (h = PrimF \<and> primF st = Ok (v, st')) \<or>
     (h = PrimI \<and> primI st = Ok (v, st')) \<or> (h = PrimJ \<and> primJ st = Ok (v, st')) \<or>
     (h = PrimS \<and> primS st = Ok (v, st')) \<or> (h = PrimZ \<and> primZ st = Ok (v, st')) \<or>
     ((h = PrimL \<or> h = PrimArr) \<and> content n None st = Ok (v, st'))"
  by (cases h) auto


declare content.simps [simp del] annotations.simps [simp del] parseClassDesc.simps [simp del]
  fieldDescs.simps [simp del] fieldDesc.simps [simp del] parseClass.simps [simp del]
  parseObject.simps [simp del] recursiveClassData.simps [simp del] classdata.simps [simp del]
  values'.simps [simp del] parseArray.simps [simp del] arrayElems.simps [simp del]
  parseEnum.simps [simp del] callPrim.simps [simp del]

section \<open>What decoding leaves unchanged\<close>

lemma frame'_refl: "frame' X st st"
  by (auto simp: frame'_def)

lemma frame'_step:
  assumes "frame' X a b" and "frame' Y b c" and "\<forall>y\<in>Y. y \<in> X \<or> length (heap a) \<le> y"
  shows "frame' X a c"
  unfolding frame'_def
proof (intro conjI allI impI)
  fix i assume "i < nextHandle a \<or> nextHandle c \<le> i"
  then show "handles c i = handles a i"
    using assms(1,2) unfolding frame'_def by (metis order.strict_trans2 order.trans)
next
  fix i assume "nextHandle a \<le> i \<and> i < nextHandle c"
  then show "handles c i \<noteq> None"
    using assms(1,2) unfolding frame'_def by (metis linorder_not_less)
next
  fix x assume "x < length (heap a) \<and> x \<notin> X"
  then show "heap c ! x = heap a ! x"
    using assms unfolding frame'_def by (metis linorder_not_less order.strict_trans2)
qed (use assms(1,2) in \<open>auto simp: frame'_def\<close>)

lemma frame'_weaken:
  "frame' Y a b \<Longrightarrow> \<forall>y\<in>Y. y \<in> X \<or> length (heap a) \<le> y \<Longrightarrow> frame' X a b"
  using frame'_step[OF frame'_refl, of Y a b X] by blast

lemma frame'_trans0: "frame' X a b \<Longrightarrow> frame' {} b c \<Longrightarrow> frame' X a c"
  by (rule frame'_step) auto

lemma frame'_pos: "frame' X a b \<Longrightarrow> pos b \<le> p \<Longrightarrow> frame' X a (b\<lparr>pos := p\<rparr>)"
  by (simp add: frame'_def cleanHandles_def)

lemma frame'_newHandle:
  "frame' X a b \<Longrightarrow> (cleanHandles a \<longrightarrow> v \<noteq> VEndBlock) \<Longrightarrow> frame' X a (newHandle v b)"
  by (auto simp: frame'_def newHandle_def cleanHandles_def)

lemma frame'_deferred:
  "frame' X a b \<Longrightarrow>
   frame' X a (b\<lparr>handles := (handles b)(nextHandle b \<mapsto> VNull), nextHandle := nextHandle b + 1\<rparr>)"
  by (auto simp: frame'_def cleanHandles_def)

lemma frame'_assign:
  "frame' X a b \<Longrightarrow> nextHandle a \<le> idx \<Longrightarrow> idx < nextHandle b \<Longrightarrow> v \<noteq> VEndBlock \<Longrightarrow>
   frame' X a (assignHandle idx v b)"
  by (auto simp: frame'_def assignHandle_def cleanHandles_def)

lemma frame'_alloc: "frame' X a b \<Longrightarrow> frame' X a (b\<lparr>heap := heap b @ [h]\<rparr>)"
  by (auto simp: frame'_def nth_append cleanHandles_def)

lemma frame'_updClass:
  "frame' X a b \<Longrightarrow> r \<in> X \<or> length (heap a) \<le> r \<Longrightarrow> frame' X a (updClass r f b)"
  unfolding frame'_def updClass_def cleanHandles_def
  by (auto simp: nth_list_update_neq) (metis nth_list_update_neq)+

lemma frame'_updObject:
  "frame' X a b \<Longrightarrow> r \<in> X \<or> length (heap a) \<le> r \<Longrightarrow> frame' X a (updObject r f b)"
  unfolding frame'_def updObject_def cleanHandles_def
  by (auto simp: nth_list_update_neq) (metis nth_list_update_neq)+

lemma frame'_updArray:
  "frame' X a b \<Longrightarrow> r \<in> X \<or> length (heap a) \<le> r \<Longrightarrow> frame' X a (updArray r f b)"
  unfolding frame'_def updArray_def cleanHandles_def
  by (auto simp: nth_list_update_neq) (metis nth_list_update_neq)+

lemma readBytes_Ok:
  "readBytes len st = Ok (bs, st') \<Longrightarrow>
     st' = st\<lparr>pos := pos st + len\<rparr> \<and> pos st + len \<le> length (buf st) \<and>
     bs = slice (buf st) (pos st) (pos st + len)"
  by (auto simp: readBytes_def step_def Let_def split: if_splits)

lemma advances_readBytes: "advances (readBytes len)"
  unfolding advances_def by (blast dest: readBytes_Ok)

lemma advances_map:
  "advances p \<Longrightarrow> advances (\<lambda>st. andThen (p st) (\<lambda>x st'. Ok (f x st', st')))"
  unfolding advances_def by (fastforce elim!: andThenE)

lemma advances_reads:
  "advances readUInt8" "advances readInt8" "advances readUInt16"
  "advances readInt16" "advances readUInt32" "advances readInt32" "advances (chunk len enc)"
  unfolding readUInt8_def[abs_def] readInt8_def[abs_def] readUInt16_def[abs_def]
    readInt16_def[abs_def] readUInt32_def[abs_def] readInt32_def[abs_def] chunk_def[abs_def]
  by (rule advances_map[OF advances_readBytes])+

lemma advances_readHex: "advances (readHex len)"
  unfolding readHex_def[abs_def] by (rule advances_reads)

lemma advances_bind:
  assumes "advances p" and "\<And>x. advances (f x)"
  shows "advances (\<lambda>st. andThen (p st) f)"
  unfolding advances_def
proof (intro allI impI)
  fix st x st'
  assume "andThen (p st) f = Ok (x, st')"
  then obtain y st1 where a: "p st = Ok (y, st1)" and b: "f y st1 = Ok (x, st')"
    by (rule andThenE)
  from a assms(1) obtain k where k: "st1 = st\<lparr>pos := pos st + k\<rparr>" unfolding advances_def by blast
  from b assms(2) obtain j where j: "st' = st1\<lparr>pos := pos st1 + j\<rparr>" unfolding advances_def by blast
  have "st' = st\<lparr>pos := pos st + (k + j)\<rparr>" using k j by simp
  then show "\<exists>k. st' = st\<lparr>pos := pos st + k\<rparr>" by blast
qed

lemma advances_utf: "advances utf"
  unfolding utf_def[abs_def] by (rule advances_bind) (rule advances_reads)+

lemma advances_Err: "advances (\<lambda>st. Err e)"
  by (simp add: advances_def)

lemma advances_if: "advances p \<Longrightarrow> advances q \<Longrightarrow> advances (\<lambda>st. if c then p st else q st)"
  by (simp add: advances_def)

lemma advances_utfLong: "advances utfLong"
  unfolding utfLong_def[abs_def]
  by (intro advances_bind advances_if advances_Err advances_reads)

lemma advances_frame: "advances p \<Longrightarrow> p st = Ok (x, st') \<Longrightarrow> frame' X st st'"
proof -
  assume "advances p" and "p st = Ok (x, st')"
  then obtain k where "st' = st\<lparr>pos := pos st + k\<rparr>" unfolding advances_def by blast
  then show ?thesis using frame'_pos [OF frame'_refl, of st "pos st + k" X] by simp
qed

lemmas reads_frame =
  advances_reads[THEN advances_frame] advances_readHex[THEN advances_frame]
  advances_utf[THEN advances_frame] advances_utfLong[THEN advances_frame]
  advances_readBytes[THEN advances_frame]

lemma leaf_frame:
  "parseNull st = Ok (v, st') \<Longrightarrow> frame' X st st'"
  "parseEndBlockData st = Ok (v, st') \<Longrightarrow> frame' X st st'"
  "parseReference st = Ok (v, st') \<Longrightarrow> frame' X st st'"
  "parseBlockData st = Ok (v, st') \<Longrightarrow> frame' X st st'"
  "parseBlockDataLong st = Ok (v, st') \<Longrightarrow> frame' X st st'"
  "parseString st = Ok (v, st') \<Longrightarrow> frame' X st st'"
  "parseLongString st = Ok (v, st') \<Longrightarrow> frame' X st st'"
  unfolding parseNull_def parseEndBlockData_def parseReference_def parseBlockData_def
    parseBlockDataLong_def parseString_def parseLongString_def
  by (auto elim!: andThenE intro!: frame'_pos frame'_newHandle frame'_refl dest: reads_frame)

lemma prims_frame:
  "primB st = Ok (v, st') \<Longrightarrow> frame' X st st'"
  "primC st = Ok (v, st') \<Longrightarrow> frame' X st st'"
  "primD st = Ok (v, st') \<Longrightarrow> frame' X st st'"
  "primF st = Ok (v, st') \<Longrightarrow> frame' X st st'"
  "primI st = Ok (v, st') \<Longrightarrow> frame' X st st'"
  "primJ st = Ok (v, st') \<Longrightarrow> frame' X st st'"
  "primS st = Ok (v, st') \<Longrightarrow> frame' X st st'"
  "primZ st = Ok (v, st') \<Longrightarrow> frame' X st st'"
  unfolding primB_def primC_def primD_def primF_def primI_def primJ_def primS_def primZ_def
  by (auto elim!: andThenE dest: reads_frame intro: frame'_trans0)

text \<open>Only \<open>parseEndBlockData\<close> returns the end-of-block object.\<close>

lemma leaf_not_EndBlock:
  "parseNull st = Ok (v, st') \<Longrightarrow> v \<noteq> VEndBlock"
  "parseBlockData st = Ok (v, st') \<Longrightarrow> v \<noteq> VEndBlock"
  "parseBlockDataLong st = Ok (v, st') \<Longrightarrow> v \<noteq> VEndBlock"
  "parseString st = Ok (v, st') \<Longrightarrow> v \<noteq> VEndBlock"
  "parseLongString st = Ok (v, st') \<Longrightarrow> v \<noteq> VEndBlock"
  unfolding parseNull_def parseBlockData_def parseBlockDataLong_def parseString_def
    parseLongString_def
  by (auto elim!: andThenE)


lemma parseReference_clean:
  "parseReference st = Ok (v, st') \<Longrightarrow> cleanHandles st \<Longrightarrow> v \<noteq> VEndBlock"
proof -
  assume r: "parseReference st = Ok (v, st')" and c: "cleanHandles st"
  from r obtain idx st1 where a: "readInt32 st = Ok (idx, st1)"
    and v: "v = (case handles st1 idx of None \<Rightarrow> VUndefined | Some v \<Rightarrow> v)"
    unfolding parseReference_def by (auto elim!: andThenE)
  have "handles st1 = handles st"
    using advances_reads(6) a unfolding advances_def by fastforce
  then show ?thesis using v c by (auto simp: cleanHandles_def split: option.splits)
qed

lemma framedD:
  assumes "framed n"
  shows "content n al st = Ok (v, st') \<Longrightarrow> frame' {} st st'"
    and "annotations n al anns st = Ok (vs, st') \<Longrightarrow> frame' {} st st'"
    and "parseClassDesc n st = Ok (v, st') \<Longrightarrow> frame' {} st st'"
    and "fieldDescs n res i c st = Ok (u, st') \<Longrightarrow> frame' {res} st st'"
    and "fieldDesc n st = Ok (fd, st') \<Longrightarrow> frame' {} st st'"
    and "parseClass n st = Ok (v, st') \<Longrightarrow> frame' {} st st'"
    and "parseObject n st = Ok (v, st') \<Longrightarrow> frame' {} st st'"
    and "recursiveClassData n cls obj st = Ok (u, st') \<Longrightarrow> frame' {obj} st st'"
    and "classdata n cls st = Ok (g, st') \<Longrightarrow> frame' {} st st'"
    and "values' n flds j vals st = Ok (g, st') \<Longrightarrow> frame' {} st st'"
    and "parseArray n st = Ok (v, st') \<Longrightarrow> frame' {} st st'"
    and "arrayElems n res h k len st = Ok (u, st') \<Longrightarrow> frame' {res} st st'"
    and "parseEnum n st = Ok (v, st') \<Longrightarrow> frame' {} st st'"
    and "callPrim n h st = Ok (v, st') \<Longrightarrow> frame' {} st st'"
  using assms unfolding framed_def by simp_all

lemma framed_EndBlock:
  assumes "framed n" and "content n al st = Ok (VEndBlock, st')" and "cleanHandles st"
  shows "readUInt8 st = Ok (0x78, st')"
    and "(case al of None \<Rightarrow> True | Some l \<Rightarrow> EndBlockData \<in> set l)"
proof -
  from assms(1) have "\<forall>al st v st'. content n al st = Ok (v, st') \<longrightarrow>
        frame' {} st st' \<and>
        (cleanHandles st \<longrightarrow> v = VEndBlock \<longrightarrow>
           readUInt8 st = Ok (0x78, st') \<and>
           (case al of None \<Rightarrow> True | Some l \<Rightarrow> EndBlockData \<in> set l))"
    unfolding framed_def by (rule conjunct1)
  with assms(2,3) have "readUInt8 st = Ok (0x78, st') \<and>
           (case al of None \<Rightarrow> True | Some l \<Rightarrow> EndBlockData \<in> set l)"
    by blast
  then show "readUInt8 st = Ok (0x78, st')"
    and "(case al of None \<Rightarrow> True | Some l \<Rightarrow> EndBlockData \<in> set l)"
    by simp_all
qed

lemma classDesc_not_EndBlock:
  assumes "framed n" and "content n (Some classDescAllowed) st = Ok (v, st')"
  shows "cleanHandles st \<longrightarrow> v \<noteq> VEndBlock"
  using framed_EndBlock(2) [OF assms(1), of "Some classDescAllowed" st st'] assms(2)
  by (auto simp: classDescAllowed_def)

lemma framed_parseClass:
  assumes "framed n" and "parseClass n st = Ok (v, st')" and "cleanHandles st"
  shows "v \<noteq> VEndBlock"
  using assms unfolding framed_def by simp

lemma names_EndBlockData: "i < 15 \<Longrightarrow> names ! i = EndBlockData \<Longrightarrow> i = 8"
proof -
  have "\<forall>i<15. names ! i = EndBlockData \<longrightarrow> i = 8"
    unfolding names_def by (simp add: eval_nat_numeral All_less_Suc)
  then show "i < 15 \<Longrightarrow> names ! i = EndBlockData \<Longrightarrow> i = 8" by blast
qed

lemma nested_not_EndBlock:
  "parseClassDesc n st = Ok (v, st') \<Longrightarrow> v \<noteq> VEndBlock"
  "parseObject n st = Ok (v, st') \<Longrightarrow> v \<noteq> VEndBlock"
  "parseArray n st = Ok (v, st') \<Longrightarrow> v \<noteq> VEndBlock"
  "parseEnum n st = Ok (v, st') \<Longrightarrow> v \<noteq> VEndBlock"
  by (cases n; auto simp: parseClassDesc.simps(1) parseObject.simps(1) parseArray.simps(1)
        parseEnum.simps(1)
      dest!: parseClassDesc_Suc_Ok parseObject_Suc_Ok parseArray_Suc_Ok parseEnum_Suc_Ok)+

lemma callHandler_frame:
  assumes IH: "framed n" and r: "callHandler n k st = Ok (v, st')"
  shows "frame' {} st st'"
  using r framedD [OF IH] unfolding callHandler_def
  by (cases k) (auto dest: leaf_frame)

lemma callHandler_EndBlock:
  assumes IH: "framed n" and r: "callHandler n k st = Ok (VEndBlock, st')" and c: "cleanHandles st"
  shows "k = EndBlockData \<and> st' = st"
  using r c framed_parseClass [OF IH, of st VEndBlock st'] unfolding callHandler_def
  by (cases k)
     (auto dest: leaf_not_EndBlock parseReference_clean nested_not_EndBlock
       simp: parseEndBlockData_def)

lemma content_frame_step:
  assumes IH: "framed n" and r: "content (Suc n) al st = Ok (v, st')"
  shows "frame' {} st st'"
    and "cleanHandles st \<longrightarrow> v = VEndBlock \<longrightarrow>
           readUInt8 st = Ok (0x78, st') \<and>
           (case al of None \<Rightarrow> True | Some l \<Rightarrow> EndBlockData \<in> set l)"
proof -
  from content_Suc_Ok [OF r] obtain b st1 where b: "readUInt8 st = Ok (b, st1)"
    and rg: "0x70 \<le> b" "b \<le> 0x7E"
    and al: "(case al of None \<Rightarrow> True | Some l \<Rightarrow> names ! nat (b - 0x70) \<in> set l)"
    and h: "callHandler n (names ! nat (b - 0x70)) st1 = Ok (v, st')"
    by blast
  have f1: "frame' {} st st1" using b by (rule reads_frame)
  have f2: "frame' {} st1 st'" using IH h by (rule callHandler_frame)
  show "frame' {} st st'" using f1 f2 by (rule frame'_trans0)
  show "cleanHandles st \<longrightarrow> v = VEndBlock \<longrightarrow>
           readUInt8 st = Ok (0x78, st') \<and>
           (case al of None \<Rightarrow> True | Some l \<Rightarrow> EndBlockData \<in> set l)"
  proof (intro impI)
    assume c: "cleanHandles st" and v: "v = VEndBlock"
    have c1: "cleanHandles st1" using f1 c by (simp add: frame'_def)
    have k: "names ! nat (b - 0x70) = EndBlockData \<and> st' = st1"
      using callHandler_EndBlock [OF IH h [unfolded v] c1] .
    have "b = 0x78"
    proof -
      have "nat (b - 0x70) < 15" using rg by linarith
      then have "nat (b - 0x70) = 8" using k by (blast intro: names_EndBlockData)
      then show ?thesis by linarith
    qed
    then show "readUInt8 st = Ok (0x78, st') \<and>
           (case al of None \<Rightarrow> True | Some l \<Rightarrow> EndBlockData \<in> set l)"
      using b k al by (auto split: option.splits)
  qed
qed


lemma annotations_frame_step:
  assumes IH: "framed n" and r: "annotations (Suc n) al anns st = Ok (vs, st')"
  shows "frame' {} st st'"
proof -
  from annotations_Suc_Ok [OF r] obtain a st1 where c: "content n al st = Ok (a, st1)"
    and d: "if a = VEndBlock then vs = anns \<and> st' = st1
            else annotations n al (anns @ [a]) st1 = Ok (vs, st')"
    by blast
  have f1: "frame' {} st st1" using c by (rule framedD [OF IH])
  have f2: "frame' {} st1 st'"
    using d framedD(2) [OF IH] by (auto split: if_splits intro: frame'_refl)
  show ?thesis using f1 f2 by (rule frame'_trans0)
qed

lemma fieldDesc_frame_step:
  assumes IH: "framed n" and r: "fieldDesc (Suc n) st = Ok (fd, st')"
  shows "frame' {} st st'"
proof -
  from fieldDesc_Suc_Ok [OF r] obtain t st1 name st2 where a: "readUInt8 st = Ok (t, st1)"
    and b: "utf st1 = Ok (name, st2)"
    and d: "st' = st2 \<or> (\<exists>cn. content n None st2 = Ok (cn, st'))"
    by (auto split: if_splits)
  have "frame' {} st st1" using a by (rule reads_frame)
  moreover have "frame' {} st1 st2" using b by (rule reads_frame)
  moreover have "frame' {} st2 st'" using d framedD(1) [OF IH] by (auto intro: frame'_refl)
  ultimately show ?thesis by (blast intro: frame'_trans0)
qed

lemma fieldDescs_frame_step:
  assumes IH: "framed n" and r: "fieldDescs (Suc n) res i count st = Ok (u, st')"
  shows "frame' {res} st st'"
proof (cases "i < count")
  case False
  then show ?thesis using fieldDescs_Suc_Ok [OF r] by (auto intro: frame'_refl)
next
  case True
  with fieldDescs_Suc_Ok [OF r] obtain fd st1 where a: "fieldDesc n st = Ok (fd, st1)"
    and b: "fieldDescs n res (i + 1) count
               (updClass res (\<lambda>c. c\<lparr>cd_fields := map_option (\<lambda>fs. fs @ [fd]) (cd_fields c)\<rparr>) st1)
             = Ok (u, st')"
    by auto
  have "frame' {res} st st1" using framedD(5) [OF IH a] by (rule frame'_weaken) simp
  then have "frame' {res} st
      (updClass res (\<lambda>c. c\<lparr>cd_fields := map_option (\<lambda>fs. fs @ [fd]) (cd_fields c)\<rparr>) st1)"
    by (rule frame'_updClass) simp
  then show ?thesis using framedD(4) [OF IH b] by (rule frame'_step) simp
qed

lemma parseClass_frame_step:
  assumes IH: "framed n" and r: "parseClass (Suc n) st = Ok (v, st')"
  shows "frame' {} st st'" and "cleanHandles st \<longrightarrow> v \<noteq> VEndBlock"
proof -
  from parseClass_Suc_Ok [OF r] obtain st1
    where a: "content n (Some classDescAllowed) st = Ok (v, st1)" and b: "st' = newHandle v st1"
    by blast
  show c: "cleanHandles st \<longrightarrow> v \<noteq> VEndBlock" using IH a by (rule classDesc_not_EndBlock)
  show "frame' {} st st'"
    unfolding b using framedD(1) [OF IH a] c by (rule frame'_newHandle)
qed

lemma callPrim_frame_step:
  assumes IH: "framed n" and r: "callPrim (Suc n) h st = Ok (v, st')"
  shows "frame' {} st st'"
  using callPrim_Suc_Ok [OF r] framedD(1) [OF IH] by (auto dest: prims_frame)

lemma arrayElems_frame_step:
  assumes IH: "framed n" and r: "arrayElems (Suc n) res h i len st = Ok (u, st')"
  shows "frame' {res} st st'"
proof (cases "i < len")
  case False
  then show ?thesis using arrayElems_Suc_Ok [OF r] by (auto intro: frame'_refl)
next
  case True
  with arrayElems_Suc_Ok [OF r] obtain v st1 where a: "callPrim n h st = Ok (v, st1)"
    and b: "arrayElems n res h (i + 1) len
               (updArray res (\<lambda>ar. ar\<lparr>ad_elems := (ad_elems ar)[nat i := v]\<rparr>) st1) = Ok (u, st')"
    by auto
  have "frame' {res} st st1" using framedD(14) [OF IH a] by (rule frame'_weaken) simp
  then have "frame' {res} st (updArray res (\<lambda>ar. ar\<lparr>ad_elems := (ad_elems ar)[nat i := v]\<rparr>) st1)"
    by (rule frame'_updArray) simp
  then show ?thesis using framedD(12) [OF IH b] by (rule frame'_step) simp
qed

lemma parseEnum_frame_step:
  assumes IH: "framed n" and r: "parseEnum (Suc n) st = Ok (v, st')"
  shows "frame' {} st st'"
proof -
  let ?d = "\<lambda>s. s\<lparr>handles := (handles s)(nextHandle s \<mapsto> VNull), nextHandle := nextHandle s + 1\<rparr>"
  from parseEnum_Suc_Ok [OF r] obtain clazz st1 cst st3 tx
    where a: "content n (Some classDescAllowed) st = Ok (clazz, st1)"
      and b: "content n None (?d st1) = Ok (cst, st3)"
      and c: "st' = assignHandle (nextHandle st1) (VEnum clazz tx) st3"
    by blast
  have f1: "frame' {} st st1" using a by (rule framedD [OF IH])
  then have f2: "frame' {} st (?d st1)" by (rule frame'_deferred)
  have f3: "frame' {} (?d st1) st3" using b by (rule framedD [OF IH])
  have f4: "frame' {} st st3" using f2 f3 by (rule frame'_trans0)
  have "nextHandle st \<le> nextHandle st1" using f1 by (simp add: frame'_def)
  moreover have "nextHandle st1 < nextHandle st3" using f3 by (simp add: frame'_def)
  ultimately show ?thesis unfolding c using f4 by (intro frame'_assign) auto
qed

lemma frame'_enterObject: "frame' X a b \<Longrightarrow> frame' X a (enterObject cls b)"
  unfolding enterObject_def by (intro frame'_newHandle frame'_alloc) simp_all

lemma parseObject_frame_step:
  assumes IH: "framed n" and r: "parseObject (Suc n) st = Ok (v, st')"
  shows "frame' {} st st'"
proof -
  from parseObject_Suc_Ok [OF r] obtain cls st1
    where a: "content n (Some classDescAllowed) st = Ok (cls, st1)"
      and b: "recursiveClassData n cls (length (heap st1)) (enterObject cls st1) = Ok ((), st')"
    by blast
  have f1: "frame' {} st st1" using a by (rule framedD [OF IH])
  then have f3: "frame' {} st (enterObject cls st1)" by (rule frame'_enterObject)
  have l: "length (heap st) \<le> length (heap st1)" using f1 by (simp add: frame'_def)
  show ?thesis by (rule frame'_step [OF f3 framedD(8) [OF IH b]]) (simp add: l)
qed

lemma values'_frame_step:
  assumes IH: "framed n" and r: "values' (Suc n) flds i vals st = Ok (g, st')"
  shows "frame' {} st st'"
proof -
  from values'_Suc_Ok [OF r]
  have "st' = st \<or> (\<exists>h v st1 k vals'. callPrim n h st = Ok (v, st1) \<and>
                        values' n flds k vals' st1 = Ok (g, st'))"
    by (elim disjE exE conjE) auto
  then show ?thesis
    using framedD(10,14) [OF IH] by (blast intro: frame'_refl frame'_trans0)
qed

lemma classdata_frame_step:
  assumes IH: "framed n" and r: "classdata (Suc n) cls st = Ok (g, st')"
  shows "frame' {} st st'"
proof -
  from classdata_Suc_Ok [OF r]
  have "(\<exists>flds g. values' n flds 0 [] st = Ok (g, st'))
      \<or> (\<exists>flds g st1 d. values' n flds 0 [] st = Ok (g, st1) \<and>
            annotations n None [] st1 = Ok (d, st'))
      \<or> (\<exists>d. annotations n None [] st = Ok (d, st'))"
    by (elim disjE exE conjE) auto
  then show ?thesis
    using framedD(2,10) [OF IH] by (blast intro: frame'_trans0)
qed

lemma assignGroup_frame:
  assumes "frame' {obj} st st2" and "assignGroup key grp obj st2 = Ok (u, st')"
  shows "frame' {obj} st st'"
proof -
  from assignGroup_Ok [OF assms(2)] obtain props
    where c: "st' = updObject obj
               (\<lambda>ob. (if key = protoKey then ob\<lparr>od_extendsProto := Some grp\<rparr>
                       else ob\<lparr>od_extends := AList.update key grp (od_extends ob)\<rparr>)
                      \<lparr>od_props := props\<rparr>) st2"
    by blast
  show ?thesis unfolding c using assms(1) by (rule frame'_updObject) simp
qed

lemma recursiveClassData_frame_step:
  assumes IH: "framed n" and r: "recursiveClassData (Suc n) cls obj st = Ok (u, st')"
  shows "frame' {obj} st st'"
proof -
  from recursiveClassData_Suc_Ok [OF r] obtain superCls st1 g st2 key
    where a0: "if truthy superCls then recursiveClassData n superCls obj st = Ok ((), st1)
               else st1 = st"
      and b: "classdata n cls st1 = Ok (g, st2)"
      and c: "assignGroup key g obj st2 = Ok ((), st')"
    by blast
  have a: "st1 = st \<or> (\<exists>s. recursiveClassData n s obj st = Ok ((), st1))"
    using a0 by (cases "truthy superCls") auto
  have "frame' {obj} st st1" using a framedD(8) [OF IH] by (auto intro: frame'_refl)
  then have "frame' {obj} st st2" using framedD(9) [OF IH b] by (rule frame'_trans0)
  then show ?thesis using c by (rule assignGroup_frame)
qed

lemma parseArray_frame_step:
  assumes IH: "framed n" and r: "parseArray (Suc n) st = Ok (v, st')"
  shows "frame' {} st st'"
proof -
  from parseArray_Suc_Ok [OF r] obtain cls st1 len st4 h
    where a: "content n (Some classDescAllowed) st = Ok (cls, st1)"
      and b: "readInt32 (newHandle (VRef (length (heap st1)))
                 (st1\<lparr>heap := heap st1 @ [HArray \<lparr>ad_class = cls, ad_elems = []\<rparr>]\<rparr>)) = Ok (len, st4)"
      and c: "arrayElems n (length (heap st1)) h 0 len
                (updArray (length (heap st1))
                   (\<lambda>ar. ar\<lparr>ad_elems := replicate (nat len) VUndefined\<rparr>) st4)
                = Ok ((), st')"
    by blast
  have f1: "frame' {} st st1" using a by (rule framedD [OF IH])
  have l: "length (heap st) \<le> length (heap st1)" using f1 by (simp add: frame'_def)
  from f1 have "frame' {} st (st1\<lparr>heap := heap st1 @ [HArray \<lparr>ad_class = cls, ad_elems = []\<rparr>]\<rparr>)"
    by (rule frame'_alloc)
  then have "frame' {} st (newHandle (VRef (length (heap st1)))
                 (st1\<lparr>heap := heap st1 @ [HArray \<lparr>ad_class = cls, ad_elems = []\<rparr>]\<rparr>))"
    by (rule frame'_newHandle) simp
  then have "frame' {} st st4" using reads_frame(6) [OF b] by (rule frame'_trans0)
  then have f5: "frame' {} st (updArray (length (heap st1))
                   (\<lambda>ar. ar\<lparr>ad_elems := replicate (nat len) VUndefined\<rparr>) st4)"
    by (rule frame'_updArray) (simp add: l)
  show ?thesis by (rule frame'_step [OF f5 framedD(12) [OF IH c]]) (simp add: l)
qed

lemma parseClassDesc_frame_step:
  assumes IH: "framed n" and r: "parseClassDesc (Suc n) st = Ok (v, st')"
  shows "frame' {} st st'"
proof -
  from parseClassDesc_Suc_Ok [OF r]
  obtain name st1 uid st2 flags st5 count st7 st9 anns st10 superCls st12
    where a: "utf st = Ok (name, st1)" "readHex 8 st1 = Ok (uid, st2)"
      and b: "readUInt8 (newHandle (VRef (length (heap st2)))
                    (st2\<lparr>heap := heap st2 @
                       [HClass \<lparr>cd_name = name, cd_serialVersionUID = uid, cd_flags = None,
                                cd_isEnum = None, cd_fields = None, cd_annotations = None,
                                cd_super = None\<rparr>]\<rparr>)) = Ok (flags, st5)"
      and c: "readUInt16 (updClass (length (heap st2))
                     (\<lambda>c. c\<lparr>cd_flags := Some flags, cd_isEnum := Some (flags AND 0x10 \<noteq> 0)\<rparr>) st5)
         = Ok (count, st7)"
      and d: "fieldDescs n (length (heap st2)) 0 count
         (updClass (length (heap st2)) (\<lambda>c. c\<lparr>cd_fields := Some []\<rparr>) st7) = Ok ((), st9)"
      and e: "annotations n None [] st9 = Ok (anns, st10)"
      and f: "content n (Some classDescAllowed)
         (updClass (length (heap st2)) (\<lambda>c. c\<lparr>cd_annotations := Some anns\<rparr>) st10)
         = Ok (superCls, st12)"
      and g: "st' = updClass (length (heap st2)) (\<lambda>c. c\<lparr>cd_super := Some superCls\<rparr>) st12"
    by (elim exE conjE)
  let ?r = "length (heap st2)"
  have "frame' {} st st1" using a(1) by (rule reads_frame)
  then have s2: "frame' {} st st2" using reads_frame(8) [OF a(2)] by (rule frame'_trans0)
  then have l: "length (heap st) \<le> ?r" by (simp add: frame'_def)
  have "frame' {} st (st2\<lparr>heap := heap st2 @
                       [HClass \<lparr>cd_name = name, cd_serialVersionUID = uid, cd_flags = None,
                                cd_isEnum = None, cd_fields = None, cd_annotations = None,
                                cd_super = None\<rparr>]\<rparr>)"
    using s2 by (rule frame'_alloc)
  then have "frame' {} st (newHandle (VRef ?r) (st2\<lparr>heap := heap st2 @
                       [HClass \<lparr>cd_name = name, cd_serialVersionUID = uid, cd_flags = None,
                                cd_isEnum = None, cd_fields = None, cd_annotations = None,
                                cd_super = None\<rparr>]\<rparr>))"
    by (rule frame'_newHandle) simp
  then have "frame' {} st st5" using reads_frame(1) [OF b] by (rule frame'_trans0)
  then have "frame' {} st (updClass ?r
                     (\<lambda>c. c\<lparr>cd_flags := Some flags, cd_isEnum := Some (flags AND 0x10 \<noteq> 0)\<rparr>) st5)"
    by (rule frame'_updClass) (simp add: l)
  then have "frame' {} st st7" using reads_frame(3) [OF c] by (rule frame'_trans0)
  then have f8: "frame' {} st (updClass ?r (\<lambda>c. c\<lparr>cd_fields := Some []\<rparr>) st7)"
    by (rule frame'_updClass) (simp add: l)
  have "frame' {} st st9" by (rule frame'_step [OF f8 framedD(4) [OF IH d]]) (simp add: l)
  then have "frame' {} st st10" using framedD(2) [OF IH e] by (rule frame'_trans0)
  then have "frame' {} st (updClass ?r (\<lambda>c. c\<lparr>cd_annotations := Some anns\<rparr>) st10)"
    by (rule frame'_updClass) (simp add: l)
  then have "frame' {} st st12" using framedD(1) [OF IH f] by (rule frame'_trans0)
  then show ?thesis unfolding g by (rule frame'_updClass) (simp add: l)
qed

lemma framed_all: "framed n"
proof (induction n)
  case 0
  show ?case
    by (simp add: framed_def content.simps annotations.simps parseClassDesc.simps
        fieldDescs.simps fieldDesc.simps parseClass.simps parseObject.simps
        recursiveClassData.simps classdata.simps values'.simps parseArray.simps
        arrayElems.simps parseEnum.simps callPrim.simps)
next
  case (Suc n)
  have c1: "\<forall>al st v st'. content (Suc n) al st = Ok (v, st') \<longrightarrow>
        frame' {} st st' \<and>
        (cleanHandles st \<longrightarrow> v = VEndBlock \<longrightarrow>
           readUInt8 st = Ok (0x78, st') \<and>
           (case al of None \<Rightarrow> True | Some l \<Rightarrow> EndBlockData \<in> set l))"
    by (intro allI impI conjI content_frame_step(1) [OF Suc]
        content_frame_step(2) [OF Suc, rule_format])
  have c2: "\<forall>al anns st v st'. annotations (Suc n) al anns st = Ok (v, st') \<longrightarrow> frame' {} st st'"
    by (intro allI impI) (rule annotations_frame_step [OF Suc])
  have c3: "\<forall>st v st'. parseClassDesc (Suc n) st = Ok (v, st') \<longrightarrow> frame' {} st st'"
    by (intro allI impI) (rule parseClassDesc_frame_step [OF Suc])
  have c4: "\<forall>res i c st v st'. fieldDescs (Suc n) res i c st = Ok (v, st') \<longrightarrow> frame' {res} st st'"
    by (intro allI impI) (rule fieldDescs_frame_step [OF Suc])
  have c5: "\<forall>st v st'. fieldDesc (Suc n) st = Ok (v, st') \<longrightarrow> frame' {} st st'"
    by (intro allI impI) (rule fieldDesc_frame_step [OF Suc])
  have c6: "\<forall>st v st'. parseClass (Suc n) st = Ok (v, st') \<longrightarrow>
        frame' {} st st' \<and> (cleanHandles st \<longrightarrow> v \<noteq> VEndBlock)"
    by (intro allI impI conjI parseClass_frame_step(1) [OF Suc]
        parseClass_frame_step(2) [OF Suc, rule_format])
  have c7: "\<forall>st v st'. parseObject (Suc n) st = Ok (v, st') \<longrightarrow> frame' {} st st'"
    by (intro allI impI) (rule parseObject_frame_step [OF Suc])
  have c8: "\<forall>cls obj st v st'. recursiveClassData (Suc n) cls obj st = Ok (v, st') \<longrightarrow>
        frame' {obj} st st'"
    by (intro allI impI) (rule recursiveClassData_frame_step [OF Suc])
  have c9: "\<forall>cls st v st'. classdata (Suc n) cls st = Ok (v, st') \<longrightarrow> frame' {} st st'"
    by (intro allI impI) (rule classdata_frame_step [OF Suc])
  have c10: "\<forall>cls i vals st v st'. values' (Suc n) cls i vals st = Ok (v, st') \<longrightarrow> frame' {} st st'"
    by (intro allI impI) (rule values'_frame_step [OF Suc])
  have c11: "\<forall>st v st'. parseArray (Suc n) st = Ok (v, st') \<longrightarrow> frame' {} st st'"
    by (intro allI impI) (rule parseArray_frame_step [OF Suc])
  have c12: "\<forall>res h i len st v st'. arrayElems (Suc n) res h i len st = Ok (v, st') \<longrightarrow>
        frame' {res} st st'"
    by (intro allI impI) (rule arrayElems_frame_step [OF Suc])
  have c13: "\<forall>st v st'. parseEnum (Suc n) st = Ok (v, st') \<longrightarrow> frame' {} st st'"
    by (intro allI impI) (rule parseEnum_frame_step [OF Suc])
  have c14: "\<forall>h st v st'. callPrim (Suc n) h st = Ok (v, st') \<longrightarrow> frame' {} st st'"
    by (intro allI impI) (rule callPrim_frame_step [OF Suc])
  show ?case
    unfolding framed_def by (intro conjI c1 c2 c3 c4 c5 c6 c7 c8 c9 c10 c11 c12 c13 c14)
qed

lemmas frames = framedD [OF framed_all]

section \<open>The elements of an array\<close>

lemma frame'_heap: "frame' X st st' \<Longrightarrow> a < length (heap st) \<Longrightarrow> a \<notin> X \<Longrightarrow> heap st' ! a = heap st ! a"
  by (simp add: frame'_def)

lemma frame'_length: "frame' X st st' \<Longrightarrow> length (heap st) \<le> length (heap st')"
  by (simp add: frame'_def)

lemma arrayElems_readElems:
  "arrayElems n a h i len st = Ok ((), st') \<Longrightarrow> a < length (heap st) \<Longrightarrow>
   heap st ! a = HArray ar \<Longrightarrow> length (ad_elems ar) = nat len \<Longrightarrow> 0 \<le> i \<Longrightarrow>
   \<exists>vs ar'. readElems n a h i len st = Ok (vs, st') \<and> a < length (heap st') \<and>
     heap st' ! a = HArray ar' \<and> ad_class ar' = ad_class ar \<and>
     ad_elems ar' = take (nat i) (ad_elems ar) @ vs \<and> length (ad_elems ar') = nat len"
proof (induction n arbitrary: i st ar)
  case 0
  then show ?case by (simp add: arrayElems.simps)
next
  case (Suc n)
  show ?case
  proof (cases "i < len")
    case False
    with arrayElems_Suc_Ok [OF Suc.prems(1)] have "st' = st" by simp
    then show ?thesis using Suc.prems False by simp
  next
    case True
    with arrayElems_Suc_Ok [OF Suc.prems(1)] obtain v st1
      where a: "callPrim n h st = Ok (v, st1)"
        and b: "arrayElems n a h (i + 1) len
                  (updArray a (\<lambda>ar. ar\<lparr>ad_elems := (ad_elems ar)[nat i := v]\<rparr>) st1) = Ok ((), st')"
      by auto
    let ?st2 = "updArray a (\<lambda>ar. ar\<lparr>ad_elems := (ad_elems ar)[nat i := v]\<rparr>) st1"
    let ?ar2 = "ar\<lparr>ad_elems := (ad_elems ar)[nat i := v]\<rparr>"
    have f: "frame' {} st st1" using a by (rule frames)
    have h1: "heap st1 ! a = HArray ar" using frame'_heap [OF f Suc.prems(2)] Suc.prems(3) by simp
    have l1: "a < length (heap st1)" using frame'_length [OF f] Suc.prems(2) by simp
    have h2: "heap ?st2 ! a = HArray ?ar2" using h1 l1 by (simp add: updArray_def)
    have l2: "a < length (heap ?st2)" using l1 by (simp add: updArray_def)
    have len2: "length (ad_elems ?ar2) = nat len" using Suc.prems(4) by simp
    have i1: "0 \<le> i + 1" using Suc.prems(5) by simp
    from Suc.IH [OF b l2 h2 len2 i1]
    obtain vs ar' where r: "readElems n a h (i + 1) len ?st2 = Ok (vs, st')"
      "a < length (heap st')" "heap st' ! a = HArray ar'" "ad_class ar' = ad_class ?ar2"
      "ad_elems ar' = take (nat (i + 1)) (ad_elems ?ar2) @ vs" "length (ad_elems ar') = nat len"
      by blast
    have i: "nat i < length (ad_elems ar)" using True Suc.prems(4,5) by linarith
    have n1: "nat (i + 1) = Suc (nat i)" using Suc.prems(5) by simp
    have "take (Suc (nat i)) ((ad_elems ar)[nat i := v]) = take (nat i) (ad_elems ar) @ [v]"
      using i by (simp add: take_Suc_conv_app_nth)
    then have e: "ad_elems ar' = take (nat i) (ad_elems ar) @ (v # vs)"
      using r(5) n1 by simp
    have "readElems (Suc n) a h i len st = Ok (v # vs, st')"
      using True a r(1) by simp
    then show ?thesis using r(2,3,4,6) e by simp
  qed
qed

lemma classOf_Some:
  "classOf st v = Some c \<longleftrightarrow> (\<exists>b. v = VRef b \<and> b < length (heap st) \<and> heap st ! b = HClass c)"
  by (auto simp: classOf_def split: val.splits hobj.splits if_splits)

lemma readInt32_heap: "readInt32 st = Ok (x, st') \<Longrightarrow> heap st' = heap st"
  using advances_reads(6) unfolding advances_def by fastforce

section \<open>The top-level sequence\<close>

lemma slice_one: "p < length b \<Longrightarrow> slice b p (Suc p) = [b ! p]"
  by (simp add: slice_def Cons_nth_drop_Suc [symmetric])

lemma readUInt8_Ok:
  "readUInt8 st = Ok (x, st') \<Longrightarrow>
     pos st < length (buf st) \<and> x = uint (buf st ! pos st) \<and> st' = st\<lparr>pos := pos st + 1\<rparr>"
  by (auto simp: readUInt8_def be_def slice_one elim!: andThenE dest!: readBytes_Ok)

lemma readUInt16_Ok: "readUInt16 st = Ok (x, st') \<Longrightarrow> st' = st\<lparr>pos := pos st + 2\<rparr>"
  by (auto simp: readUInt16_def elim!: andThenE dest!: readBytes_Ok)

lemma content_code_0x78:
  assumes "content n None st = Ok (v, st')" and "uint (buf st ! pos st) = 0x78"
  shows "v = VEndBlock"
proof (cases n)
  case 0
  then show ?thesis using assms by (simp add: content.simps)
next
  case (Suc m)
  from content_Suc_Ok [OF assms(1) [unfolded Suc]] obtain b st1
    where b: "readUInt8 st = Ok (b, st1)"
      and h: "callHandler m (names ! nat (b - 0x70)) st1 = Ok (v, st')"
    by blast
  have "b = 0x78" using readUInt8_Ok [OF b] assms(2) by simp
  then have "names ! nat (b - 0x70) = EndBlockData" by (simp add: names_def)
  then show ?thesis using h by (simp add: callHandler_def parseEndBlockData_def)
qed

lemma content_EndBlock_code:
  assumes "content n None st = Ok (v, st')" and "cleanHandles st"
  shows "isEndBlock v = isEndBlockCode (uint (buf st ! pos st))"
proof (cases "v = VEndBlock")
  case True
  have "readUInt8 st = Ok (0x78, st')"
    using framed_EndBlock(1) [OF framed_all assms(1) [unfolded True] assms(2)] .
  then show ?thesis using True readUInt8_Ok by (fastforce simp: isEndBlock_def isEndBlockCode_def)
next
  case False
  then show ?thesis
    using content_code_0x78 [OF assms(1)] by (auto simp: isEndBlock_def isEndBlockCode_def)
qed

lemma contentsLoop_EndBlock:
  "contentsLoop n st = Ok st' \<Longrightarrow> cleanHandles st \<Longrightarrow>
   map isEndBlock (contents st') = map isEndBlock (contents st) @ map isEndBlockCode (topCodes n st)"
proof (induction n arbitrary: st)
  case 0
  then show ?case by simp
next
  case (Suc n)
  show ?case
  proof (cases "pos st < length (buf st)")
    case False
    then show ?thesis using Suc.prems by simp
  next
    case True
    with Suc.prems(1) obtain elt st1 where c: "content n None st = Ok (elt, st1)"
      and l: "contentsLoop n (st1\<lparr>contents := contents st1 @ [elt]\<rparr>) = Ok st'"
      by (auto elim!: andThenE)
    have f: "frame' {} st st1" using c by (rule frames)
    then have cl: "cleanHandles (st1\<lparr>contents := contents st1 @ [elt]\<rparr>)"
      using Suc.prems(2) by (simp add: frame'_def cleanHandles_def)
    have cs: "contents st1 = contents st" using f by (simp add: frame'_def)
    have e: "isEndBlock elt = isEndBlockCode (uint (buf st ! pos st))"
      using c Suc.prems(2) by (rule content_EndBlock_code)
    show ?thesis using Suc.IH [OF l cl] True c cs e by simp
  qed
qed

lemma parse_Ok: "isOk (parse b) \<Longrightarrow> parse b = Ok (parsed b)"
  by (auto simp: isOk_def parsed_def split: outcome.splits)

section \<open>The per-class data\<close>

lemma andThen_cong_Ok:
  "(\<And>x s. m = Ok (x, s) \<Longrightarrow> f x s = g x s) \<Longrightarrow> andThen m f = andThen m g"
  by (cases m) auto

lemma onOk_cong_Ok: "(\<And>x. m = Ok x \<Longrightarrow> f x = g x) \<Longrightarrow> onOk m f = onOk m g"
  by (cases m) auto

text \<open>What the accessors read from a class descriptor.\<close>

lemma class_getProp:
  "a < length (heap st) \<Longrightarrow> heap st ! a = HClass c \<Longrightarrow> getProp st (VRef a) k = Ok (classProp c k)"
  by (simp add: getProp_def)

lemma class_fields:
  assumes "a < length (heap st)" and "heap st ! a = HClass c" and "cd_fields c = Some flds"
  shows "fieldsOf st (VRef a) = Ok (ClassFields a)"
    and "moreFields st (ClassFields a) i = Ok (i < length flds)"
    and "i < length flds \<Longrightarrow>
         fieldAt st (ClassFields a) i = Ok (VStr (fd_type (flds ! i)), VStr (fd_name (flds ! i)))"
  using assms by (simp_all add: fieldsOf_def moreFields_def fieldAt_def)

lemma toStr_VStr: "toStr st (VStr s) = Ok s"
  by (simp add: toStr_def)

text \<open>The low nibble of the flags is not affected by the conversion to 32 bits.\<close>

lemma nibble_int32: "signed 32 (n mod 2 ^ 32) AND 0x0f = n AND (0x0f :: int)"
proof -
  have m: "(0x0f :: int) = mask 4" by (simp add: mask_eq_exp_minus_1)
  have sub: "(x - 4294967296) mod 16 = x mod (16 :: int)" for x
  proof -
    have "x - 4294967296 = x + 16 * (- 268435456)" by simp
    then have "(x - 4294967296) mod 16 = (x + 16 * (- 268435456)) mod 16" by simp
    also have "\<dots> = x mod 16" by (rule mod_mult_self2)
    finally show ?thesis .
  qed
  have mm: "(n mod 4294967296) mod 16 = n mod (16 :: int)"
    by (rule mod_mod_cancel) simp
  have "signed 32 (n mod 2 ^ 32) mod 16 = n mod 16"
    by (simp add: signed_def sub mm)
  then have "take_bit 4 (signed 32 (n mod 2 ^ 32)) = take_bit 4 n"
    by (simp add: take_bit_eq_mod)
  then show ?thesis
    unfolding m by (simp only: take_bit_eq_mask)
qed

lemma toInt32_VNum: "toInt32 st (VNum n) = Ok (signed 32 (n mod 2 ^ 32))"
  by (simp add: toInt32_def)

lemma values'_fieldValues:
  "a < length (heap st) \<Longrightarrow> heap st ! a = HClass c \<Longrightarrow> cd_fields c = Some flds \<Longrightarrow>
   values' n (ClassFields a) i vals st = fieldValues n (drop i flds) vals st"
proof (induction n arbitrary: i vals st)
  case 0
  show ?case by (simp add: values'.simps)
next
  case (Suc n)
  note cf = class_fields [OF Suc.prems]
  show ?case
  proof (cases "i < length flds")
    case False
    then show ?thesis using cf(2) [of i] by (simp add: values'.simps)
  next
    case True
    then have d: "drop i flds = flds ! i # drop (Suc i) flds"
      by (simp add: Cons_nth_drop_Suc)
    let ?f = "flds ! i"
    have step: "(if fd_name ?f = protoKey then
                   (if protoIgnores v then values' n (ClassFields a) (i + 1) vals st1 else Unmodelled)
                 else values' n (ClassFields a) (i + 1) (AList.update (fd_name ?f) v vals) st1)
              = (if fd_name ?f = protoKey then
                   (if protoIgnores v then fieldValues n (drop (Suc i) flds) vals st1 else Unmodelled)
                 else fieldValues n (drop (Suc i) flds) (AList.update (fd_name ?f) v vals) st1)"
      if r: "callPrim n h st = Ok (v, st1)" for h v st1
    proof -
      have f: "frame' {} st st1" using r by (rule frames)
      have h1: "heap st1 ! a = HClass c" using frame'_heap [OF f Suc.prems(1)] Suc.prems(2) by simp
      have l1: "a < length (heap st1)" using frame'_length [OF f] Suc.prems(1) by simp
      show ?thesis using Suc.IH [OF l1 h1 Suc.prems(3), of "i + 1"] by simp
    qed
    have "values' (Suc n) (ClassFields a) i vals st =
            onOk (fieldHandler st (VStr (fd_type ?f))) (\<lambda>handler.
              andThen (callPrim n handler st) (\<lambda>v st1.
                if fd_name ?f = protoKey then
                  (if protoIgnores v then values' n (ClassFields a) (i + 1) vals st1 else Unmodelled)
                else values' n (ClassFields a) (i + 1) (AList.update (fd_name ?f) v vals) st1))"
      using True cf(2) [of i] cf(3) [OF True] by (simp add: values'.simps toStr_VStr)
    also have "\<dots> =
            onOk (fieldHandler st (VStr (fd_type ?f))) (\<lambda>handler.
              andThen (callPrim n handler st) (\<lambda>v st1.
                if fd_name ?f = protoKey then
                  (if protoIgnores v then fieldValues n (drop (Suc i) flds) vals st1 else Unmodelled)
                else fieldValues n (drop (Suc i) flds) (AList.update (fd_name ?f) v vals) st1))"
      by (intro onOk_cong_Ok andThen_cong_Ok step)
    also have "\<dots> = fieldValues (Suc n) (drop i flds) vals st"
      unfolding d by simp
    finally show ?thesis .
  qed
qed

text \<open>
  The key under which a post-processor is looked up determines the pair of name and
  serialVersionUID, the latter being 16 characters long on both sides.
\<close>

lemma registry_key_pair:
  "length u = 16 \<Longrightarrow> length u' = 16 \<Longrightarrow>
   name @ str ''@'' @ u = name' @ str ''@'' @ u' \<longleftrightarrow> name = name' \<and> u = u'"
  by (auto simp: str_def)

section \<open>The two views of an object\<close>














lemma map_of_fold_merge:
  "map_of (fold (\<lambda>g ps. AList.merge ps g) gs ps0) = foldl (\<lambda>m g. m ++ map_of g) (map_of ps0) gs"
  by (induction gs arbitrary: ps0) (simp_all add: merge_conv')


section \<open>The handle table\<close>

lemma frame'_allocatesBlock: "frame' X st st' \<Longrightarrow> allocatesBlock st st'"
  by (simp add: frame'_def allocatesBlock_def)

lemma frame'_slot:
  "frame' X st st' \<Longrightarrow> i < nextHandle st \<Longrightarrow> handles st' i = handles st i"
  by (simp add: frame'_def)

lemma frame'_dense:
  assumes "frame' X st st'" and "dom (handles st) = {base ..< nextHandle st}"
    and "base \<le> nextHandle st"
  shows "dom (handles st') = {base ..< nextHandle st'}"
proof -
  have le: "nextHandle st \<le> nextHandle st'"
    using assms(1) by (simp add: frame'_def)
  have low: "handles st' i = handles st i" if "i < nextHandle st" for i
    using assms(1) that by (simp add: frame'_def)
  have high: "handles st' i = handles st i" if "nextHandle st' \<le> i" for i
    using assms(1) that by (simp add: frame'_def)
  have mid: "handles st' i \<noteq> None" if "nextHandle st \<le> i" "i < nextHandle st'" for i
    using assms(1) that by (simp add: frame'_def)
  have old: "handles st i \<noteq> None \<longleftrightarrow> base \<le> i \<and> i < nextHandle st" for i
    using assms(2) by (auto simp: dom_def set_eq_iff)
  have "handles st' i \<noteq> None \<longleftrightarrow> base \<le> i \<and> i < nextHandle st'" for i
  proof (cases "i < nextHandle st")
    case True
    then show ?thesis using low [OF True] old [of i] le by simp
  next
    case False
    show ?thesis
    proof (cases "i < nextHandle st'")
      case True
      then show ?thesis using mid [of i] False assms(3) by simp
    next
      case False
      then have "nextHandle st' \<le> i" by simp
      from high [OF this] show ?thesis using old [of i] False le by simp
    qed
  qed
  then show ?thesis by (auto simp: dom_def set_eq_iff)
qed

lemma contentsLoop_dense:
  "contentsLoop n st = Ok st' \<Longrightarrow> dom (handles st) = {base ..< nextHandle st} \<Longrightarrow>
   base \<le> nextHandle st \<Longrightarrow>
   dom (handles st') = {base ..< nextHandle st'} \<and> base \<le> nextHandle st'"
proof (induction n arbitrary: st)
  case 0
  then show ?case by simp
next
  case (Suc n)
  show ?case
  proof (cases "pos st < length (buf st)")
    case False
    then show ?thesis using Suc.prems by simp
  next
    case True
    from Suc.prems(1) True obtain v s1 where
      c: "content n None st = Ok (v, s1)" and
      l: "contentsLoop n (s1\<lparr>contents := contents s1 @ [v]\<rparr>) = Ok st'"
      by (auto elim!: andThenE)
    have f: "frame' {} st s1" by (rule frames(1) [OF c])
    have d: "dom (handles s1) = {base ..< nextHandle s1}"
      by (rule frame'_dense [OF f Suc.prems(2) Suc.prems(3)])
    have b: "base \<le> nextHandle s1" using f Suc.prems(3) by (simp add: frame'_def)
    show ?thesis
      by (rule Suc.IH [OF l]) (simp_all add: d b)
  qed
qed

lemma Parser_dense:
  assumes "Parser fuel (initial reg dec b) = Ok fin"
  shows "dom (handles fin) = {0x7e0000 ..< nextHandle fin}"
proof -
  from assms obtain s1 s2 where
    m: "magic (initial reg dec b) = Ok ((), s1)" and
    v: "version s1 = Ok ((), s2)" and
    l: "contentsLoop fuel s2 = Ok fin"
    by (auto simp: Parser_def elim!: andThenE)
  have h1: "handles s1 = Map.empty \<and> nextHandle s1 = 0x7e0000"
    using m by (auto simp: magic_def initial_def elim!: andThenE dest!: readUInt16_Ok split: if_splits)
  have h2: "handles s2 = Map.empty \<and> nextHandle s2 = 0x7e0000"
    using v h1 by (auto simp: version_def elim!: andThenE dest!: readUInt16_Ok split: if_splits)
  have "dom (handles fin) = {0x7e0000 ..< nextHandle fin} \<and> 0x7e0000 \<le> nextHandle fin"
    by (rule contentsLoop_dense [OF l]) (simp_all add: h2)
  then show ?thesis by simp
qed


lemma frame'_nextHandle: "frame' X st st' \<Longrightarrow> nextHandle st \<le> nextHandle st'"
  by (simp add: frame'_def)

lemma advances_table:
  assumes "advances p" and "p st = Ok (x, st')"
  shows "handles st' = handles st \<and> nextHandle st' = nextHandle st"
proof -
  from assms obtain k where "st' = st\<lparr>pos := pos st + k\<rparr>" unfolding advances_def by blast
  then show ?thesis by simp
qed

lemma upd_table:
  "handles (updClass a f st) = handles st" "nextHandle (updClass a f st) = nextHandle st"
  "handles (updObject a g st) = handles st" "nextHandle (updObject a g st) = nextHandle st"
  "handles (updArray a h st) = handles st" "nextHandle (updArray a h st) = nextHandle st"
  by (simp_all add: updClass_def updObject_def updArray_def)

lemma newHandle_table:
  "handles (newHandle v st) (nextHandle st) = Some v"
  "nextHandle (newHandle v st) = nextHandle st + 1"
  by (simp_all add: newHandle_def)

lemma classDesc_written:
  assumes "parseClassDesc (Suc n) st = Ok (v, st')"
  shows "descriptorWrittenEarly n st v st'"
proof -
  from parseClassDesc_Suc_Ok [OF assms] obtain name st1 uid st2 flags st5 count st7 st9 anns st10
      superCls st12 where
    u: "utf st = Ok (name, st1)" and x: "readHex 8 st1 = Ok (uid, st2)" and
    fl: "readUInt8 (enterClassDesc name uid st2) = Ok (flags, st5)" and
    ct: "readUInt16 (updClass (length (heap st2))
                     (\<lambda>c. c\<lparr>cd_flags := Some flags, cd_isEnum := Some (flags AND 0x10 \<noteq> 0)\<rparr>) st5)
         = Ok (count, st7)" and
    fd: "fieldDescs n (length (heap st2)) 0 count
         (updClass (length (heap st2)) (\<lambda>c. c\<lparr>cd_fields := Some []\<rparr>) st7) = Ok ((), st9)" and
    an: "annotations n None [] st9 = Ok (anns, st10)" and
    su: "content n (Some classDescAllowed)
         (updClass (length (heap st2)) (\<lambda>c. c\<lparr>cd_annotations := Some anns\<rparr>) st10)
         = Ok (superCls, st12)" and
    v: "v = VRef (length (heap st2))" and
    st': "st' = updClass (length (heap st2)) (\<lambda>c. c\<lparr>cd_super := Some superCls\<rparr>) st12"
    unfolding enterClassDesc_def by (elim exE conjE)
  let ?a = "length (heap st2)"
  let ?i = "nextHandle st"
  let ?s4 = "enterClassDesc name uid st2"
  let ?s8 = "updClass ?a (\<lambda>c. c\<lparr>cd_fields := Some []\<rparr>) st7"
  let ?s11 = "updClass ?a (\<lambda>c. c\<lparr>cd_annotations := Some anns\<rparr>) st10"
  have t2: "nextHandle st2 = ?i"
    using advances_table [OF advances_utf u] advances_table [OF advances_readHex x] by simp
  have h4: "handles ?s4 ?i = Some v" and n4: "nextHandle ?s4 = ?i + 1"
    using t2 v by (simp_all add: enterClassDesc_def newHandle_def)
  have t5: "handles st5 ?i = Some v \<and> nextHandle st5 = ?i + 1"
    using advances_table [OF advances_reads(1) fl] h4 n4 by simp
  have t7: "handles st7 ?i = Some v \<and> nextHandle st7 = ?i + 1"
    using advances_table [OF advances_reads(3) ct] t5 by (simp add: upd_table)
  have h8: "handles ?s8 ?i = Some v" and n8: "nextHandle ?s8 = ?i + 1"
    using t7 by (simp_all add: upd_table)
  have f9: "frame' {?a} ?s8 st9" by (rule frames(4) [OF fd])
  have h9: "handles st9 ?i = Some v"
    using frame'_slot [OF f9, of ?i] h8 n8 by simp
  have n9: "?i < nextHandle st9" using frame'_nextHandle [OF f9] n8 by simp
  have f10: "frame' {} st9 st10" by (rule frames(2) [OF an])
  have h10: "handles st10 ?i = Some v" using frame'_slot [OF f10 n9] h9 by simp
  have n10: "?i < nextHandle st10" using frame'_nextHandle [OF f10] n9 by simp
  have h11: "handles ?s11 ?i = Some v" and n11: "?i < nextHandle ?s11"
    using h10 n10 by (simp_all add: upd_table)
  have f12: "frame' {} ?s11 st12" by (rule frames(1) [OF su])
  have h12: "handles st12 ?i = Some v" using frame'_slot [OF f12 n11] h11 by simp
  have h': "handles st' ?i = Some v" using h12 st' by (simp add: upd_table)
  show ?thesis
    unfolding descriptorWrittenEarly_def
    by (intro exI conjI) (rule u x v h4 n4 fl ct h8 fd h9 an h11 su st' h')+
qed

lemma object_written:
  assumes "parseObject (Suc n) st = Ok (v, st')"
  shows "objectWrittenEarly n st v st'"
proof -
  from parseObject_Suc_Ok [OF assms] obtain cls st1 where
    c: "content n (Some classDescAllowed) st = Ok (cls, st1)" and
    v: "v = VRef (length (heap st1))" and
    r: "recursiveClassData n cls (length (heap st1)) (enterObject cls st1) = Ok ((), st')"
    by (elim exE conjE)
  let ?s3 = "enterObject cls st1"
  have h3: "handles ?s3 (nextHandle st1) = Some v" and n3: "nextHandle ?s3 = nextHandle st1 + 1"
    using v by (simp_all add: enterObject_def newHandle_def)
  have f: "frame' {length (heap st1)} ?s3 st'" by (rule frames(8) [OF r])
  have h': "handles st' (nextHandle st1) = Some v"
    using frame'_slot [OF f, of "nextHandle st1"] h3 n3 by simp
  show ?thesis
    unfolding objectWrittenEarly_def
    by (intro exI conjI) (rule c v h3 n3 r h')+
qed

lemma array_written:
  assumes "parseArray (Suc n) st = Ok (v, st')"
  shows "arrayWrittenEarly n st v st'"
proof -
  from parseArray_Suc_Ok [OF assms] obtain cls st1 len st4 t h where
    c: "content n (Some classDescAllowed) st = Ok (cls, st1)" and
    l: "readInt32 (enterArray cls st1) = Ok (len, st4)" and
    t: "arrayType st4 cls = Ok t" "primHandler t = Inr h" and
    e: "arrayElems n (length (heap st1)) h 0 len
         (updArray (length (heap st1)) (\<lambda>ar. ar\<lparr>ad_elems := replicate (nat len) VUndefined\<rparr>) st4)
         = Ok ((), st')" and
    v: "v = VRef (length (heap st1))"
    unfolding enterArray_def by (elim exE conjE)
  let ?s3 = "enterArray cls st1"
  let ?s5 = "updArray (length (heap st1)) (\<lambda>ar. ar\<lparr>ad_elems := replicate (nat len) VUndefined\<rparr>) st4"
  have h3: "handles ?s3 (nextHandle st1) = Some v" and n3: "nextHandle ?s3 = nextHandle st1 + 1"
    using v by (simp_all add: enterArray_def newHandle_def)
  have eh: "elementHandler st4 cls = Some h" using t by (simp add: elementHandler_def)
  have h5: "handles ?s5 (nextHandle st1) = Some v" and n5: "nextHandle ?s5 = nextHandle st1 + 1"
    using advances_table [OF advances_reads(6) l] h3 n3 by (simp_all add: upd_table)
  have f: "frame' {length (heap st1)} ?s5 st'" by (rule frames(12) [OF e])
  have h': "handles st' (nextHandle st1) = Some v"
    using frame'_slot [OF f, of "nextHandle st1"] h5 n5 by simp
  show ?thesis
    unfolding arrayWrittenEarly_def
    by (intro exI conjI) (rule c v h3 n3 l eh h5 e h')+
qed

lemma enum_written:
  assumes "parseEnum (Suc n) st = Ok (v, st')"
  shows "enumWrittenLate n st v st'"
proof -
  from parseEnum_Suc_Ok [OF assms] obtain clazz st1 cst st3 tx where
    c: "content n (Some classDescAllowed) st = Ok (clazz, st1)" and
    k: "content n None (snd (newDeferredHandle st1)) = Ok (cst, st3)" and
    t: "toStr st3 cst = Ok tx" and
    v: "v = VEnum clazz tx" and st': "st' = assignHandle (nextHandle st1) v st3"
    unfolding newDeferredHandle_def by auto
  let ?s2 = "snd (newDeferredHandle st1)"
  have h2: "handles ?s2 (nextHandle st1) = Some VNull" and n2: "nextHandle ?s2 = nextHandle st1 + 1"
    by (simp_all add: newDeferredHandle_def)
  have f: "frame' {} ?s2 st3" by (rule frames(1) [OF k])
  have h3: "handles st3 (nextHandle st1) = Some VNull"
    using frame'_slot [OF f, of "nextHandle st1"] h2 n2 by simp
  have h': "handles st' (nextHandle st1) = Some v"
    using st' by (simp add: assignHandle_def)
  show ?thesis
    unfolding enumWrittenLate_def
    by (intro exI conjI) (rule c h2 n2 k h3 t v st' h')+
qed

lemma class_written:
  assumes "parseClass (Suc n) st = Ok (v, st')"
  shows "writtenEarly n Class st v st'"
proof -
  from parseClass_Suc_Ok [OF assms] obtain st1 where
    c: "content n (Some classDescAllowed) st = Ok (v, st1)" and st': "st' = newHandle v st1"
    by (elim exE conjE)
  show ?thesis
    unfolding writtenEarly_def name.case
    by (intro exI conjI) (simp_all add: c st' newHandle_def)
qed

lemma string_written:
  "parseString st = Ok (v, st') \<Longrightarrow> writtenEarly n String st v st'"
  "parseLongString st = Ok (v, st') \<Longrightarrow> writtenEarly n LongString st v st'"
  unfolding writtenEarly_def parseString_def parseLongString_def
  by (auto elim!: andThenE simp: newHandle_def
        dest!: advances_table [OF advances_utf] advances_table [OF advances_utfLong])

lemma leaf_written:
  "parseNull st = Ok (v, st') \<Longrightarrow> writtenEarly n Null st v st'"
  "parseEndBlockData st = Ok (v, st') \<Longrightarrow> writtenEarly n EndBlockData st v st'"
  "parseReference st = Ok (v, st') \<Longrightarrow> writtenEarly n Reference st v st'"
  "parseBlockData st = Ok (v, st') \<Longrightarrow> writtenEarly n BlockData st v st'"
  "parseBlockDataLong st = Ok (v, st') \<Longrightarrow> writtenEarly n BlockDataLong st v st'"
  unfolding writtenEarly_def parseNull_def parseEndBlockData_def parseReference_def
    parseBlockData_def parseBlockDataLong_def
  by (auto elim!: andThenE
        dest!: advances_table [OF advances_reads(1)] advances_table [OF advances_reads(5)]
               advances_table [OF advances_reads(6)])

lemma callHandler_written:
  assumes "callHandler (Suc n) k st = Ok (v, st')"
  shows "writtenEarly n k st v st'"
proof -
  have a: "k = ClassDesc \<Longrightarrow> writtenEarly n k st v st'"
    using assms classDesc_written [of n st v st'] by (simp add: callHandler_def writtenEarly_def)
  have b: "k = Object \<Longrightarrow> writtenEarly n k st v st'"
    using assms object_written [of n st v st'] by (simp add: callHandler_def writtenEarly_def)
  have c: "k = Array \<Longrightarrow> writtenEarly n k st v st'"
    using assms array_written [of n st v st'] by (simp add: callHandler_def writtenEarly_def)
  have d: "k = Enum \<Longrightarrow> writtenEarly n k st v st'"
    using assms enum_written [of n st v st'] by (simp add: callHandler_def writtenEarly_def)
  have e: "k \<noteq> ClassDesc \<Longrightarrow> k \<noteq> Object \<Longrightarrow> k \<noteq> Array \<Longrightarrow> k \<noteq> Enum \<Longrightarrow>
           writtenEarly n k st v st'"
    using assms
    by (cases k) (simp_all add: callHandler_def class_written string_written leaf_written)
  show ?thesis using a b c d e by blast
qed

section \<open>The claims\<close>

text \<open>
  C5. A type-code byte below 0x70 or above 0x7e is to fail as an unknown type code,
  0x7f included. The bound check of \<open>content\<close> lets 0x7f pass (\<^verbatim>\<open>tc > names.length\<close>
  where \<^verbatim>\<open>tc >= names.length\<close> was meant): the stream of the header followed by the byte
  0x7f fails with "Don't know how to handle undefined", not with "Don't know about type",
  which the next byte, 0x80, does get.
\<close>

theorem content_0x7f_no_handler:
  "errorOf (parse [0xac, 0xed, 0x00, 0x05, 0x7f]) = Some (NoHandler None) \<and>
   errorOf (parse [0xac, 0xed, 0x00, 0x05, 0x7f]) \<noteq> Some (UnknownType 0x7f) \<and>
   errorOf (parse [0xac, 0xed, 0x00, 0x05, 0x80]) = Some (UnknownType 0x80)"
  by code_simp

text \<open>
  C6. A successful parse is to end with the cursor at the length of the buffer. The stream
  of the header followed by a BlockData item that declares 5 bytes and has 1 parses
  successfully, and the cursor ends at 11 in a buffer of 7 bytes.
\<close>

theorem blockdata_cursor_past_end:
  "isOk (parse [0xac, 0xed, 0x00, 0x05, 0x77, 0x05, 0x01]) \<and>
   pos (parsed [0xac, 0xed, 0x00, 0x05, 0x77, 0x05, 0x01]) = 11 \<and>
   length (buf (parsed [0xac, 0xed, 0x00, 0x05, 0x77, 0x05, 0x01])) = 7 \<and>
   contents (parsed [0xac, 0xed, 0x00, 0x05, 0x77, 0x05, 0x01]) = [VBuf [0x01]]"
  by code_simp

text \<open>
  C7. A BlockData or BlockDataLong item whose declared length exceeds what remains is to
  fail with a premature end of input. \<open>parseBlockDataLong\<close> adds the length to the
  cursor without \<open>step\<close>: an item that declares 9 bytes and has 2 is decoded as those 2
  bytes, and the parse succeeds.
\<close>

theorem blockdatalong_truncated_accepted:
  "isOk (parse [0xac, 0xed, 0x00, 0x05, 0x7a, 0x00, 0x00, 0x00, 0x09, 0x01, 0x02]) \<and>
   contents (parsed [0xac, 0xed, 0x00, 0x05, 0x7a, 0x00, 0x00, 0x00, 0x09, 0x01, 0x02])
     = [VBuf [0x01, 0x02]] \<and>
   pos (parsed [0xac, 0xed, 0x00, 0x05, 0x7a, 0x00, 0x00, 0x00, 0x09, 0x01, 0x02]) = 18 \<and>
   errorOf (parse [0xac, 0xed, 0x00, 0x05, 0x7a, 0x00, 0x00, 0x00, 0x09, 0x01, 0x02])
     \<noteq> Some PrematureEnd"
  by code_simp

text \<open>
  C8, as stated: a reference to a slot that is not allocated is to fail. It does not: the
  stream of the header followed by a reference to handle 0x7e0000, which nothing
  allocated, parses successfully and yields \<^verbatim>\<open>undefined\<close>.
\<close>

theorem unallocated_reference_counterexample:
  "isOk (parse [0xac, 0xed, 0x00, 0x05, 0x71, 0x00, 0x7e, 0x00, 0x00]) \<and>
   contents (parsed [0xac, 0xed, 0x00, 0x05, 0x71, 0x00, 0x7e, 0x00, 0x00]) = [VUndefined] \<and>
   handles (parsed [0xac, 0xed, 0x00, 0x05, 0x71, 0x00, 0x7e, 0x00, 0x00]) 0x7e0000 = None"
  by code_simp

text \<open>
  C8, amended: a Reference item whose 4-byte index can be read never fails. It yields
  the stored value when the index is allocated, and \<^verbatim>\<open>undefined\<close> when it is not.
\<close>

theorem reference_yields_slot_or_undefined:
  assumes "readUInt8 st = Ok (0x71, st1)"
    and "readInt32 st1 = Ok (idx, st2)"
    and "(case al of None \<Rightarrow> True | Some l \<Rightarrow> Reference \<in> set l)"
  shows "content (Suc n) al st =
           Ok (case handles st idx of None \<Rightarrow> VUndefined | Some v \<Rightarrow> v, st2)"
proof -
  have h: "handles st2 = handles st"
    using assms(1,2)
    by (auto simp: readUInt8_def readInt32_def readBytes_def step_def Let_def
        elim!: andThenE split: if_splits)
  have "names ! nat (0x71 - 0x70) = Reference" by (simp add: names_def)
  then show ?thesis
    using assms h
    by (auto simp: content.simps Let_def names_def parseReference_def split: option.splits)
qed

theorem reference_yields_slot_or_undefined_witness:
  "readUInt8 referenceExample = Ok (0x71, referenceExample\<lparr>pos := 1\<rparr>) \<and>
   readInt32 (referenceExample\<lparr>pos := 1\<rparr>) = Ok (0x7e0000, referenceExample\<lparr>pos := 5\<rparr>) \<and>
   content (Suc 0) None referenceExample = Ok (VStr (str ''a''), referenceExample\<lparr>pos := 5\<rparr>)"
proof -
  have a: "readUInt8 referenceExample = Ok (0x71, referenceExample\<lparr>pos := 1\<rparr>)"
    by (simp add: referenceExample_def stream_def initial_def readUInt8_def readBytes_def
        step_def slice_def be_def)
  have b: "readInt32 (referenceExample\<lparr>pos := 1\<rparr>) = Ok (0x7e0000, referenceExample\<lparr>pos := 5\<rparr>)"
    by (simp add: referenceExample_def stream_def initial_def readInt32_def readBytes_def
        step_def slice_def be_def signed_def)
  have c: "handles referenceExample 0x7e0000 = Some (VStr (str ''a''))"
    by (simp add: referenceExample_def)
  show ?thesis
    using reference_yields_slot_or_undefined [OF a b, of None 0] a b c by simp
qed

text \<open>
  C10. An Array item whose length on the wire is negative is never decoded: when the
  descriptor names an element type with a handler, the assignment of the length throws a
  RangeError before any element is read; otherwise the item has failed before that. So
  the length of a decoded array is never negative.
\<close>

theorem negative_array_length_fails:
  assumes "arrayHeader n st = Ok ((cls, len), st4)" and "len < 0"
  shows "(\<forall>r. parseArray (Suc n) st \<noteq> Ok r) \<and> parseArray (Suc n) st \<noteq> OutOfFuel \<and>
         (elementHandler st4 cls \<noteq> None \<longrightarrow> parseArray (Suc n) st = Err RangeError)"
proof -
  from assms(1) obtain st1 where
    c: "content n (Some classDescAllowed) st = Ok (cls, st1)" and
    l: "readInt32 (newHandle (VRef (length (heap st1)))
          (st1\<lparr>heap := heap st1 @ [HArray \<lparr>ad_class = cls, ad_elems = []\<rparr>]\<rparr>)) = Ok (len, st4)"
    by (auto simp: arrayHeader_def Let_def alloc_def elim!: andThenE)
  have eq: "parseArray (Suc n) st =
      onOk (arrayType st4 cls) (\<lambda>type.
         case primHandler type of
           Inl e \<Rightarrow> Err e
         | Inr handler \<Rightarrow> Err RangeError)"
    using c l assms(2)
    by (simp add: parseArray.simps Let_def alloc_def cong: sum.case_cong)
  show ?thesis
    unfolding eq elementHandler_def
    using arrayType_decided [of st4 cls]
    by (cases "arrayType st4 cls") (auto split: sum.splits)
qed

theorem negative_array_length_fails_witness:
  "isOk (arrayHeader 8 negativeArrayExample) \<and>
   resultValue (arrayHeader 8 negativeArrayExample) (VNull, 0) = (VRef 0, - 1) \<and>
   (- 1 :: int) < 0 \<and>
   elementHandler (resultState (arrayHeader 8 negativeArrayExample) negativeArrayExample) (VRef 0)
     = Some PrimI \<and>
   parseArray (Suc 8) negativeArrayExample = Err RangeError"
proof -
  have a: "isOk (arrayHeader 8 negativeArrayExample)" by code_simp
  have b: "resultValue (arrayHeader 8 negativeArrayExample) (VNull, 0) = (VRef 0, - 1)"
    by code_simp
  have c: "elementHandler (resultState (arrayHeader 8 negativeArrayExample) negativeArrayExample)
             (VRef 0) = Some PrimI"
    by code_simp
  have h: "arrayHeader 8 negativeArrayExample =
             Ok ((VRef 0, - 1), resultState (arrayHeader 8 negativeArrayExample) negativeArrayExample)"
    using Ok_collapse [OF a, of "(VNull, 0)" negativeArrayExample] b by simp
  show ?thesis
    using negative_array_length_fails [OF h] a b c by simp
qed

text \<open>
  C9, as stated: the name of an array's class is to begin with \<^verbatim>\<open>[\<close>. \<open>parseArray\<close>
  reads only the second character of the name: an array item whose descriptor is named
  \<^verbatim>\<open>XI\<close> is decoded as an (empty) array of ints.
\<close>

theorem array_class_name_counterexample:
  "isOk (parse xiArrayStream) \<and> contents (parsed xiArrayStream) = [VRef 1] \<and>
   map_option ad_class (arrayOf (parsed xiArrayStream) (VRef 1)) = Some (VRef 0) \<and>
   map_option cd_name (classOf (parsed xiArrayStream) (VRef 0)) = Some (str ''XI'') \<and>
   take 1 (str ''XI'') \<noteq> str ''[''"
  by code_simp

text \<open>
  C9, amended: for every array returned by a successful decode of an Array item, the value
  at the class position (a class descriptor or, through a reference, any value) has a
  name, a string, whose second character is one of the ten element type codes when the
  length has been read; the first character is not checked. The number of elements is the
  length read from the wire, and the elements are, in order, the values that the
  successive calls of the reader selected by that second character return
  (\<open>readElems\<close>), each call starting where the previous one stopped.
\<close>

theorem array_length_and_elements:
  assumes "parseArray (Suc n) st = Ok (v, st')"
  shows "\<exists>cls len st4 h a vs ar.
           arrayHeader n st = Ok ((cls, len), st4) \<and> v = VRef a \<and>
           elementHandler st4 cls = Some h \<and>
           readElems n a h 0 len (elementsStart a len st4) = Ok (vs, st') \<and>
           arrayOf st' v = Some ar \<and> ad_class ar = cls \<and> ad_elems ar = vs \<and>
           int (length vs) = len"
proof -
  from parseArray_Suc_Ok [OF assms] obtain cls st1 len st4 t h
    where a: "content n (Some classDescAllowed) st = Ok (cls, st1)"
      and b: "readInt32 (newHandle (VRef (length (heap st1)))
                (st1\<lparr>heap := heap st1 @ [HArray \<lparr>ad_class = cls, ad_elems = []\<rparr>]\<rparr>)) = Ok (len, st4)"
      and c: "arrayType st4 cls = Ok t" "primHandler t = Inr h" "0 \<le> len"
      and d: "arrayElems n (length (heap st1)) h 0 len
                (updArray (length (heap st1))
                   (\<lambda>ar. ar\<lparr>ad_elems := replicate (nat len) VUndefined\<rparr>) st4) = Ok ((), st')"
      and v: "v = VRef (length (heap st1))"
    by blast
  let ?a = "length (heap st1)"
  let ?st5 = "updArray ?a (\<lambda>ar. ar\<lparr>ad_elems := replicate (nat len) VUndefined\<rparr>) st4"
  let ?ar = "\<lparr>ad_class = cls, ad_elems = replicate (nat len) VUndefined\<rparr>"
  have hd: "arrayHeader n st = Ok ((cls, len), st4)"
    using a b by (simp add: arrayHeader_def alloc_def)
  have eh: "elementHandler st4 cls = Some h" using c(1,2) by (simp add: elementHandler_def)
  have h4: "heap st4 = heap st1 @ [HArray \<lparr>ad_class = cls, ad_elems = []\<rparr>]"
    using readInt32_heap [OF b] by (simp add: newHandle_def)
  have h5: "heap ?st5 ! ?a = HArray ?ar" and l5: "?a < length (heap ?st5)"
    using h4 by (simp_all add: updArray_def)
  have len5: "length (ad_elems ?ar) = nat len" by simp
  from arrayElems_readElems [OF d l5 h5 len5] obtain vs ar'
    where r: "readElems n ?a h 0 len ?st5 = Ok (vs, st')" "?a < length (heap st')"
      "heap st' ! ?a = HArray ar'" "ad_class ar' = cls" "ad_elems ar' = vs"
      "length (ad_elems ar') = nat len"
    by auto
  have ao: "arrayOf st' v = Some ar'" using r(2,3) v by (simp add: arrayOf_def)
  have ln: "int (length vs) = len" using r(5,6) c(3) by simp
  have rd: "readElems n ?a h 0 len (elementsStart ?a len st4) = Ok (vs, st')"
    using r(1) by (simp add: elementsStart_def)
  show ?thesis
    by (intro exI conjI) (rule hd v eh rd ao r(4) r(5) ln)+
qed

theorem array_length_and_elements_witness:
  "isOk (parseArray (Suc 8) objectClassArrayItem) \<and>
   resultValue (parseArray (Suc 8) objectClassArrayItem) VNull = VRef 2 \<and>
   resultValue (arrayHeader 8 objectClassArrayItem) (VNull, 0) = (VRef 1, 1) \<and>
   objectOf (resultState (arrayHeader 8 objectClassArrayItem) objectClassArrayItem) (VRef 1)
     = Some \<lparr>od_class = VRef 0, od_extends = [(str ''X'', [(str ''name'', VStr (str ''[I''))])],
             od_extendsProto = None, od_props = [(str ''name'', VStr (str ''[I''))]\<rparr> \<and>
   elementHandler (resultState (arrayHeader 8 objectClassArrayItem) objectClassArrayItem) (VRef 1)
     = Some PrimI \<and>
   resultValue
     (readElems 8 2 PrimI 0 1
        (elementsStart 2 1 (resultState (arrayHeader 8 objectClassArrayItem) objectClassArrayItem)))
     [] = [VNum 7] \<and>
   arrayOf (resultState (parseArray (Suc 8) objectClassArrayItem) objectClassArrayItem) (VRef 2)
     = Some \<lparr>ad_class = VRef 1, ad_elems = [VNum 7]\<rparr>"
proof -
  let ?r = "parseArray (Suc 8) objectClassArrayItem"
  let ?f = "resultState ?r objectClassArrayItem"
  let ?hd = "arrayHeader 8 objectClassArrayItem"
  let ?s4 = "resultState ?hd objectClassArrayItem"
  have a: "isOk ?r" by code_simp
  have b: "resultValue ?r VNull = VRef 2" by code_simp
  have c: "isOk ?hd" by code_simp
  have d: "resultValue ?hd (VNull, 0) = (VRef 1, 1)" by code_simp
  have e: "objectOf ?s4 (VRef 1)
     = Some \<lparr>od_class = VRef 0, od_extends = [(str ''X'', [(str ''name'', VStr (str ''[I''))])],
             od_extendsProto = None, od_props = [(str ''name'', VStr (str ''[I''))]\<rparr>"
    by code_simp
  have g: "elementHandler ?s4 (VRef 1) = Some PrimI" by code_simp
  have k: "resultValue (readElems 8 2 PrimI 0 1 (elementsStart 2 1 ?s4)) [] = [VNum 7]"
    by code_simp
  have h: "?r = Ok (VRef 2, ?f)"
    using Ok_collapse [OF a, of VNull objectClassArrayItem] b by simp
  have hd: "?hd = Ok ((VRef 1, 1), ?s4)"
    using Ok_collapse [OF c, of "(VNull, 0)" objectClassArrayItem] d by simp
  from array_length_and_elements [OF h] obtain cls len st4 hh aa vs ar
    where w: "?hd = Ok ((cls, len), st4)" "VRef 2 = VRef aa" "elementHandler st4 cls = Some hh"
      "readElems 8 aa hh 0 len (elementsStart aa len st4) = Ok (vs, ?f)"
      "arrayOf ?f (VRef 2) = Some ar" "ad_class ar = cls" "ad_elems ar = vs"
    by blast
  from w(1) [symmetric] hd have "Ok ((cls, len), st4) = Ok ((VRef 1, 1), ?s4)" by (rule trans)
  then have i: "cls = VRef 1" "len = 1" "st4 = ?s4" "aa = 2" using w(2) by simp_all
  have "hh = PrimI" using w(3) g i by simp
  then have "readElems 8 2 PrimI 0 1 (elementsStart 2 1 ?s4) = Ok (vs, ?f)"
    using w(4) i by simp
  then have "vs = [VNum 7]" using k by (simp add: resultValue_def)
  then have "arrayOf ?f (VRef 2) = Some \<lparr>ad_class = VRef 1, ad_elems = [VNum 7]\<rparr>"
    using w(5,6,7) i by (cases ar) simp
  then show ?thesis using a b d e g k by simp
qed

text \<open>
  C4, as stated: the end-of-block object is never an element of the top-level sequence. It
  is one when a top-level item is an EndBlockData code, which \<open>content\<close> accepts
  wherever no allow-list is given: the header followed by the byte 0x78 parses to a
  sequence whose only element is the end-of-block object.
\<close>

theorem top_level_endblock_counterexample:
  "isOk (parse [0xac, 0xed, 0x00, 0x05, 0x78]) \<and>
   contents (parsed [0xac, 0xed, 0x00, 0x05, 0x78]) = [VEndBlock]"
  by code_simp

text \<open>
  C4, amended: after a successful parse, the elements of the top-level sequence that are
  the end-of-block object are exactly the items that start with the type code 0x78. No
  other top-level item yields it (no handle slot ever holds it, so no reference does).
\<close>

theorem endblock_exactly_at_code_0x78:
  assumes "Parser fuel (initial reg dec b) = Ok st"
  shows "map isEndBlock (contents st) =
           map isEndBlockCode (topCodes fuel ((initial reg dec b)\<lparr>pos := 4\<rparr>))"
proof -
  from assms obtain st1 st2 x y where m: "readUInt16 (initial reg dec b) = Ok (x, st1)"
    and v: "readUInt16 st1 = Ok (y, st2)" and l: "contentsLoop fuel st2 = Ok st"
    by (auto simp: Parser_def magic_def version_def elim!: andThenE split: if_splits)
  have s2: "st2 = (initial reg dec b)\<lparr>pos := 4\<rparr>"
    using readUInt16_Ok [OF m] readUInt16_Ok [OF v] by (simp add: initial_def)
  have "cleanHandles st2" unfolding s2 by (simp add: cleanHandles_def initial_def)
  from contentsLoop_EndBlock [OF l this] show ?thesis
    unfolding s2 by (simp add: initial_def)
qed

theorem endblock_exactly_at_code_0x78_witness:
  "isOk (parse endBlockStream) \<and>
   topCodes 50 ((stream endBlockStream)\<lparr>pos := 4\<rparr>) = [0x78, 0x70] \<and>
   map isEndBlock (contents (parsed endBlockStream)) = [True, False]"
proof -
  have a: "isOk (parse endBlockStream)" by code_simp
  have c: "topCodes 50 ((stream endBlockStream)\<lparr>pos := 4\<rparr>) = [0x78, 0x70]" by code_simp
  have h: "Parser 50 (initial (\<lambda>key. None) asciiText endBlockStream) = Ok (parsed endBlockStream)"
    using parse_Ok [OF a] by (simp add: parse_def stream_def)
  show ?thesis
    using endblock_exactly_at_code_0x78 [OF h] a c
    by (simp add: stream_def isEndBlockCode_def)
qed

text \<open>
  C1, as stated: with the nibble 0x02 exactly one value is read per declared field. The
  class data of an object can be read while the descriptor of its class is still being
  decoded and has not all its fields yet: in the stream below, the class \<^verbatim>\<open>A\<close> declares
  the fields \<^verbatim>\<open>x\<close> and \<^verbatim>\<open>y\<close>, and the object in the class-name position of \<^verbatim>\<open>y\<close>
  has class \<^verbatim>\<open>A\<close>; one value, for \<^verbatim>\<open>x\<close>, is read for it.
\<close>

theorem one_value_for_two_fields_counterexample:
  "isOk (parse lateFieldStream) \<and> contents (parsed lateFieldStream) = [VRef 0] \<and>
   classOf (parsed lateFieldStream) (VRef 0) =
     Some \<lparr>cd_name = str ''A'', cd_serialVersionUID = str ''0000000000000001'',
           cd_flags = Some 2, cd_isEnum = Some False,
           cd_fields = Some [\<lparr>fd_type = str ''I'', fd_name = str ''x'', fd_className = None\<rparr>,
                             \<lparr>fd_type = str ''L'', fd_name = str ''y'',
                              fd_className = Some (VRef 1)\<rparr>],
           cd_annotations = Some [], cd_super = Some VNull\<rparr> \<and>
   objectOf (parsed lateFieldStream) (VRef 1) =
     Some \<lparr>od_class = VRef 0, od_extends = [(str ''A'', [(str ''x'', VNum 7)])],
           od_extendsProto = None, od_props = [(str ''x'', VNum 7)]\<rparr> \<and>
   pos (parsed lateFieldStream) = length lateFieldStream"
  by code_simp

text \<open>
  C1, amended: the data read for a class descriptor is selected by the low nibble of its
  flags: with 0x02, one value per field of the descriptor's field list as the list stands
  when the data is read, in the order of the list; with 0x03, those field values, then an
  annotation block stored under the key \<^verbatim>\<open>@\<close>, and the group is replaced by what the
  post-processor registered under the class's name and serialVersionUID returns, if there
  is one; with 0x04 an error; with 0x0c only an annotation block, returned as the sole
  entry \<^verbatim>\<open>@\<close>, the fields not being read; with any other nibble an error.
  \<open>classdata\<close> is \<open>readClassData\<close>, which says this, for every outcome.
\<close>

theorem classdata_selected_by_low_nibble:
  assumes "classOf st cls = Some c" and "cd_flags c = Some flags" and "cd_fields c = Some flds"
  shows "classdata (Suc n) cls st =
           readClassData n flags flds
             (registry st (cd_name c @ str ''@'' @ cd_serialVersionUID c)) cls st"
proof -
  from assms(1) obtain a where a: "cls = VRef a" "a < length (heap st)" "heap st ! a = HClass c"
    unfolding classOf_Some by blast
  note gp = class_getProp [OF a(2,3)]
  have v: "values' n (ClassFields a) 0 [] st = fieldValues n flds [] st"
    using values'_fieldValues [OF a(2,3) assms(3), of n 0 "[]"] by simp
  have f: "fieldsOf st (VRef a) = Ok (ClassFields a)"
    by (rule class_fields(1) [OF a(2,3) assms(3)])
  have fl: "classProp c KFlags = VNum flags" using assms(2) by (simp add: classProp_def)
  have nm: "classProp c KName = VStr (cd_name c)"
    and uid: "classProp c KSerialVersionUID = VStr (cd_serialVersionUID c)"
    by (simp_all add: classProp_def)
  obtain m where m: "toInt32 st (VNum flags) = Ok m" and nib: "m AND 0x0f = flags AND 0x0f"
    using toInt32_VNum [of st flags] nibble_int32 [of flags] by simp
  have u: "unknownFlags st (VNum flags) = (Err (UnknownFlags (VNum flags)) :: (group \<times> pstate) outcome)"
    by (simp add: unknownFlags_def)
  show ?thesis
    unfolding a(1)
    by (simp add: classdata.simps gp nm uid fl toStr_VStr m nib f v u readClassData_def Let_def
        cong: option.case_cong)
qed

theorem classdata_selected_by_low_nibble_witness:
  "classOf classDataExample (VRef 0) =
     Some \<lparr>cd_name = str ''A'', cd_serialVersionUID = str ''0000000000000001'',
           cd_flags = Some 3, cd_isEnum = Some False,
           cd_fields = Some [\<lparr>fd_type = str ''I'', fd_name = str ''x'', fd_className = None\<rparr>],
           cd_annotations = Some [], cd_super = Some VNull\<rparr> \<and>
   resultValue
     (readClassData 8 3 [\<lparr>fd_type = str ''I'', fd_name = str ''x'', fd_className = None\<rparr>]
        None (VRef 0) classDataExample) []
     = [(str ''x'', VNum 5), (str ''@'', VSeq [VBuf [0xaa]])] \<and>
   resultValue (classdata (Suc 8) (VRef 0) classDataExample) []
     = [(str ''x'', VNum 5), (str ''@'', VSeq [VBuf [0xaa]])]"
proof -
  let ?c = "\<lparr>cd_name = str ''A'', cd_serialVersionUID = str ''0000000000000001'',
           cd_flags = Some 3, cd_isEnum = Some False,
           cd_fields = Some [\<lparr>fd_type = str ''I'', fd_name = str ''x'', fd_className = None\<rparr>],
           cd_annotations = Some [], cd_super = Some VNull\<rparr>"
  have a: "classOf classDataExample (VRef 0) = Some ?c" by code_simp
  have b: "resultValue
     (readClassData 8 3 [\<lparr>fd_type = str ''I'', fd_name = str ''x'', fd_className = None\<rparr>]
        None (VRef 0) classDataExample) []
     = [(str ''x'', VNum 5), (str ''@'', VSeq [VBuf [0xaa]])]" by code_simp
  have r: "registry classDataExample (cd_name ?c @ str ''@'' @ cd_serialVersionUID ?c) = None"
    by code_simp
  show ?thesis
    using classdata_selected_by_low_nibble [OF a, of 3 _ 8] a b r by simp
qed




text \<open>
  C3. Handle indices are allocated consecutively from base 0x7E0000, one per allocation,
  never skipped or reused: after a parse the allocated indices are exactly those from the
  base up to the next handle, and every handler only fills the block of indices from its
  next handle on, one value each, leaving every other slot as it was. A value is in its
  slot before its components are decoded (\<open>writtenEarly\<close>, which follows each handler
  step by step): the field descriptors, the annotations and the super class of a class
  descriptor, the class data of an object, and the length and the elements of an array
  are decoded from states that hold the value in its slot, and the slot holds it at the
  end. For an enum the slot holds \<^verbatim>\<open>null\<close> from before the constant is decoded until
  after it, and the enum is assigned to it then. The class-descriptor position that opens
  an Object, Array, Enum or Class item precedes the allocation of the item's slot; a Class
  item stores the value of that position, which was in the table before its own
  components were decoded.
\<close>

theorem handles_consecutive_and_written_early:
  assumes "Parser fuel (initial reg dec b) = Ok fin"
    and "callHandler (Suc n) k st = Ok (v, st')"
  shows "dom (handles fin) = {0x7e0000 ..< nextHandle fin} \<and>
         allocatesBlock st st' \<and> writtenEarly n k st v st'"
  using Parser_dense [OF assms(1)]
    frame'_allocatesBlock [OF callHandler_frame [OF framed_all assms(2)]]
    callHandler_written [OF assms(2)]
  by simp

theorem handles_consecutive_and_written_early_witness:
  "isOk (parse enumStream) \<and>
   isOk (callHandler (Suc 8) Enum ((stream enumStream)\<lparr>pos := 5\<rparr>)) \<and>
   dom (handles (parsed enumStream)) = {0x7e0000 ..< 0x7e0003} \<and>
   handles (snd (newDeferredHandle
                   (resultState (content 8 (Some classDescAllowed) ((stream enumStream)\<lparr>pos := 5\<rparr>))
                      (stream enumStream)))) 0x7e0001
     = Some VNull \<and>
   handles (resultState (callHandler (Suc 8) Enum ((stream enumStream)\<lparr>pos := 5\<rparr>))
              (stream enumStream)) 0x7e0001
     = Some (VEnum (VRef 0) (str ''ONE'')) \<and>
   handles (resultState (callHandler (Suc 8) Enum ((stream enumStream)\<lparr>pos := 5\<rparr>))
              (stream enumStream)) 0x7e0003
     = None"
proof -
  let ?st = "(stream enumStream)\<lparr>pos := 5\<rparr>"
  let ?r = "callHandler (Suc 8) Enum ?st"
  let ?st' = "resultState ?r (stream enumStream)"
  let ?v = "VEnum (VRef 0) (str ''ONE'')"
  let ?c = "content 8 (Some classDescAllowed) ?st"
  let ?s1 = "resultState ?c (stream enumStream)"
  have a: "isOk (parse enumStream)" by code_simp
  have h: "Parser 50 (initial (\<lambda>key. None) asciiText enumStream) = Ok (parsed enumStream)"
    using parse_Ok [OF a] by (simp add: parse_def stream_def)
  have b: "isOk ?r" by code_simp
  have v: "resultValue ?r VNull = ?v" by code_simp
  have c: "?r = Ok (?v, ?st')"
    using Ok_collapse [OF b, of VNull "stream enumStream"] v by simp
  have n: "nextHandle (parsed enumStream) = 0x7e0003" by code_simp
  have n0: "nextHandle ?st = 0x7e0000 \<and> handles ?st 0x7e0003 = None" by code_simp
  have n': "nextHandle ?st' = 0x7e0003" by code_simp
  have d: "isOk ?c" by code_simp
  have n1: "nextHandle ?s1 = 0x7e0001" by code_simp
  have s1: "s = ?s1" if "?c = Ok (x, s)" for x s
    using that by (simp add: resultState_def)
  note t = handles_consecutive_and_written_early [OF h c]
  have t1: "dom (handles (parsed enumStream)) = {0x7e0000 ..< 0x7e0003}"
    using t n by simp
  have t2: "handles ?st' 0x7e0003 = None"
    using t n0 n' unfolding allocatesBlock_def by simp
  have "enumWrittenLate 8 ?st ?v ?st'" using t by (simp add: writtenEarly_def)
  then obtain clazz s where w: "?c = Ok (clazz, s)"
    "handles (snd (newDeferredHandle s)) (nextHandle s) = Some VNull"
    "handles ?st' (nextHandle s) = Some ?v"
    unfolding enumWrittenLate_def by blast
  have s: "s = ?s1" using w(1) by (rule s1)
  have t3: "handles (snd (newDeferredHandle ?s1)) 0x7e0001 = Some VNull"
    using w(2) s n1 by simp
  have t4: "handles ?st' 0x7e0001 = Some ?v" using w(3) s n1 by simp
  show ?thesis using a b t1 t2 t3 t4 by simp
qed

end
